theory Spec2Isabelle
  imports Complex_Main
begin

section \<open>Numbers and randomness\<close>

text \<open>
  The program is TypeScript: a \<^verbatim>\<open>number\<close> is modelled as a real number and the
  arithmetic below is exact (no NaN, no infinities), with one exception: the intensity
  that \<open>strike\<close> draws is computed as the code computes it, in binary64 with rounding
  to nearest, ties to even, since whether it can reach 1 depends on the rounding.

  \<^verbatim>\<open>Math.random()\<close> is the only source of non-determinism apart from the clock.
  The values it returns are given by a sequence \<open>rnd\<close>; the code that draws from it is
  handed the index \<open>k\<close> of its first draw and uses \<open>rnd k\<close>, \<open>rnd (k + 1)\<close>, ... in the
  order in which the source calls \<^verbatim>\<open>Math.random()\<close>.  Each value lies in \<open>[0, 1)\<close>.
\<close>

definition valid_random :: "(nat \<Rightarrow> real) \<Rightarrow> bool" where
  "valid_random rnd \<longleftrightarrow> (\<forall>n. 0 \<le> rnd n \<and> rnd n < 1)"

text \<open>A sequence that returns the same value at every draw, for concrete runs.\<close>

definition const_draws :: "real \<Rightarrow> nat \<Rightarrow> real" where
  "const_draws c n = c"

subsection \<open>Rounding to binary64\<close>

text \<open>
  The binary64 numbers from \<open>2^-k\<close> up to \<open>2^(1-k)\<close> are the multiples of \<open>2^-(k+52)\<close>, for
  \<open>k\<close> up to 1022; below \<open>2^-1022\<close> they are the multiples of \<open>2^-1074\<close>.  For
  \<open>0 \<le> x < 2\<close>, \<open>spacing n k x\<close> looks for the first \<open>k\<close> with \<open>2^-k \<le> x\<close>, in at most \<open>n\<close>
  steps, and \<open>ulp64 x\<close> is the distance between the binary64 numbers around \<open>x\<close>.
\<close>

fun spacing :: "nat \<Rightarrow> nat \<Rightarrow> real \<Rightarrow> real" where
  "spacing 0 k x = 1 / 2 ^ (k + 52)"
| "spacing (Suc n) k x = (if 1 / 2 ^ k \<le> x then 1 / 2 ^ (k + 52) else spacing n (Suc k) x)"

definition ulp64 :: "real \<Rightarrow> real" where
  "ulp64 x = spacing 1022 0 x"

text \<open>The nearest integer; halfway between two integers, the even one.\<close>

definition round_even :: "real \<Rightarrow> int" where
  "round_even q =
     (let f = \<lfloor>q\<rfloor>; d = q - of_int f
      in if d < 1 / 2 then f else if 1 / 2 < d then f + 1 else if even f then f else f + 1)"

text \<open>The binary64 number nearest to \<open>x\<close>, for \<open>0 \<le> x < 2\<close>.\<close>

definition fl64 :: "real \<Rightarrow> real" where
  "fl64 x = of_int (round_even (x / ulp64 x)) * ulp64 x"

text \<open>The values of the literals \<^verbatim>\<open>0.8\<close> and \<^verbatim>\<open>0.2\<close>.\<close>

definition lit_0_8 :: real where
  "lit_0_8 = fl64 0.8"

definition lit_0_2 :: real where
  "lit_0_2 = fl64 0.2"

section \<open>Raindrop (src/raindrop.ts)\<close>

record raindrop =
  rd_x :: real
  rd_y :: real
  rd_speed :: real
  rd_length :: real
  rd_opacity :: real
  rd_width :: real
  rd_velocityY :: real
  rd_acceleration :: real
  rd_terminalVelocity :: real
  rd_mass :: real

text \<open>The constructor: eight draws, in source order.\<close>

definition Raindrop_new :: "(nat \<Rightarrow> real) \<Rightarrow> nat \<Rightarrow> real \<Rightarrow> real \<Rightarrow> raindrop" where
  "Raindrop_new rnd k canvasWidth canvasHeight =
     (let x = rnd k * canvasWidth;
          y = rnd (k + 1) * canvasHeight - canvasHeight;
          speed = rnd (k + 2) * 10 + 5;
          len = rnd (k + 3) * 20 + 10;
          opacity = rnd (k + 4) * 0.6 + 0.4;
          width = rnd (k + 5) * 2 + 1;
          velocityY = rnd (k + 6) * 2 + 1;
          mass = width * len * 0.1;
          acceleration = 0.3 + rnd (k + 7) * 0.2;
          terminalVelocity = 8 + mass * 2
      in \<lparr>rd_x = x, rd_y = y, rd_speed = speed, rd_length = len, rd_opacity = opacity,
          rd_width = width, rd_velocityY = velocityY, rd_acceleration = acceleration,
          rd_terminalVelocity = terminalVelocity, rd_mass = mass\<rparr>)"

text \<open>\<^verbatim>\<open>update(canvasHeight)\<close>: gravity, drag, clamp; then position and wind.\<close>

definition Raindrop_update :: "raindrop \<Rightarrow> real \<Rightarrow> raindrop" where
  "Raindrop_update d canvasHeight =
     (let velocityY =
            (if rd_velocityY d < rd_terminalVelocity d then
               (let v1 = rd_velocityY d + rd_acceleration d;
                    airResistance = v1 * 0.02;
                    v2 = v1 - airResistance
                in min v2 (rd_terminalVelocity d))
             else rd_velocityY d);
          y = rd_y d + velocityY;
          windEffect = sin (y * 0.008) * 0.3 + sin (y * 0.015) * 0.2
      in d\<lparr>rd_velocityY := velocityY, rd_y := y, rd_x := rd_x d + windEffect,
           rd_speed := velocityY\<rparr>)"

definition isOutOfBounds :: "raindrop \<Rightarrow> real \<Rightarrow> bool" where
  "isOutOfBounds d canvasHeight \<longleftrightarrow> rd_y d > canvasHeight + rd_length d"

text \<open>
  \<^verbatim>\<open>reset(canvasWidth)\<close>: five draws.  The assignment to \<open>y\<close> reads the length before
  the length is drawn anew; the width is kept.
\<close>

definition Raindrop_reset :: "(nat \<Rightarrow> real) \<Rightarrow> nat \<Rightarrow> raindrop \<Rightarrow> real \<Rightarrow> raindrop" where
  "Raindrop_reset rnd k d canvasWidth =
     (let x = rnd k * canvasWidth;
          y = - rd_length d;
          len = rnd (k + 1) * 20 + 10;
          opacity = rnd (k + 2) * 0.6 + 0.4;
          velocityY = rnd (k + 3) * 2 + 1;
          mass = rd_width d * len * 0.1;
          acceleration = 0.3 + rnd (k + 4) * 0.2;
          terminalVelocity = 8 + mass * 2
      in d\<lparr>rd_x := x, rd_y := y, rd_length := len, rd_opacity := opacity,
           rd_velocityY := velocityY, rd_mass := mass, rd_acceleration := acceleration,
           rd_terminalVelocity := terminalVelocity, rd_speed := velocityY\<rparr>)"

text \<open>
  The states a raindrop can be in: built by the constructor, then any sequence of
  \<open>update\<close> and \<open>reset\<close> calls, with any canvas size and any position in the random
  sequence.
\<close>

inductive reachable_drop :: "(nat \<Rightarrow> real) \<Rightarrow> raindrop \<Rightarrow> bool" for rnd where
  drop_new: "reachable_drop rnd (Raindrop_new rnd k canvasWidth canvasHeight)"
| drop_update: "reachable_drop rnd d \<Longrightarrow> reachable_drop rnd (Raindrop_update d canvasHeight)"
| drop_reset: "reachable_drop rnd d \<Longrightarrow> reachable_drop rnd (Raindrop_reset rnd k d canvasWidth)"

text \<open>The invariant behind the velocity claims.\<close>

definition drop_inv :: "raindrop \<Rightarrow> bool" where
  "drop_inv d \<longleftrightarrow>
     1 \<le> rd_width d \<and>
     rd_velocityY d \<le> rd_terminalVelocity d \<and>
     rd_velocityY d < 49 * rd_acceleration d"


section \<open>Ground with puddles (src/unnamed/part_000)\<close>

record splash =
  sp_x :: real
  sp_y :: real
  sp_velocityX :: real
  sp_velocityY :: real
  sp_life :: real
  sp_maxLife :: real
  sp_size :: real
  sp_impactY :: real

record ripple =
  rp_x :: real
  rp_y :: real
  rp_radius :: real
  rp_opacity :: real
  rp_maxRadius :: real
  rp_time :: real

text \<open>
  A puddle carries the fields of the \<^verbatim>\<open>Puddle\<close> interface and the four properties that
  \<^verbatim>\<open>createPuddles\<close> attaches to the compound puddle through \<^verbatim>\<open>as any\<close>.  On an
  ordinary puddle these are absent in the source (\<open>isCompound\<close> reads as falsy and the
  other three are never read); the record gives them \<open>False\<close> and \<open>0\<close>.
\<close>

record puddle =
  pd_x :: real
  pd_width :: real
  pd_height :: real
  pd_ripples :: "ripple list"
  isCompound :: bool
  smallerWidth :: real
  smallerHeight :: real
  overlapOffset :: real

text \<open>
  The ground holds a reference to the canvas, of which it reads width and height; they
  are fields here.  \<open>cursor\<close> is the index of the next draw from the random sequence.
\<close>

record ground =
  canvas_width :: real
  canvas_height :: real
  groundHeight :: real
  splashes :: "splash list"
  puddles :: "puddle list"
  cursor :: nat

definition getGroundY :: "ground \<Rightarrow> real" where
  "getGroundY g = canvas_height g - groundHeight g"

text \<open>The \<^verbatim>\<open>forEach\<close> at the end of \<^verbatim>\<open>createPuddles\<close>: keep a puddle inside the screen.\<close>

definition clampPuddle :: "real \<Rightarrow> puddle \<Rightarrow> puddle" where
  "clampPuddle screenWidth puddle =
     (let p1 = (if pd_x puddle < 10 then puddle\<lparr>pd_x := 10\<rparr> else puddle)
      in if pd_x p1 + pd_width p1 > screenWidth - 10
         then p1\<lparr>pd_x := screenWidth - pd_width p1 - 10\<rparr> else p1)"

definition createPuddles :: "(nat \<Rightarrow> real) \<Rightarrow> ground \<Rightarrow> ground" where
  "createPuddles rnd g =
     (let k = cursor g;
          screenWidth = canvas_width g;
          section1 = screenWidth * 0.2;
          section2 = screenWidth * 0.5;
          section3 = screenWidth * 0.8;
          mediumWidth = 120 + rnd k * 40;
          mediumHeight = 20 + rnd (k + 1) * 10;
          medium = \<lparr>pd_x = section1 - mediumWidth / 2, pd_width = mediumWidth,
                    pd_height = mediumHeight, pd_ripples = [], isCompound = False,
                    smallerWidth = 0, smallerHeight = 0, overlapOffset = 0\<rparr>;
          mainWidth = 220 + rnd (k + 2) * 60;
          mainHeight = 35 + rnd (k + 3) * 15;
          compoundX = section2 - mainWidth / 2;
          compound = \<lparr>pd_x = compoundX, pd_width = mainWidth, pd_height = mainHeight,
                      pd_ripples = [], isCompound = True,
                      smallerWidth = 80 + rnd (k + 4) * 30,
                      smallerHeight = 18 + rnd (k + 5) * 12,
                      overlapOffset = mainWidth * 0.7\<rparr>;
          smallWidth = 50 + rnd (k + 6) * 30;
          smallHeight = 12 + rnd (k + 7) * 6;
          small = \<lparr>pd_x = section3 - smallWidth / 2, pd_width = smallWidth,
                   pd_height = smallHeight, pd_ripples = [], isCompound = False,
                   smallerWidth = 0, smallerHeight = 0, overlapOffset = 0\<rparr>
      in g\<lparr>puddles := map (clampPuddle screenWidth) [medium, compound, small],
           cursor := k + 8\<rparr>)"

definition Ground_new :: "(nat \<Rightarrow> real) \<Rightarrow> nat \<Rightarrow> real \<Rightarrow> real \<Rightarrow> ground" where
  "Ground_new rnd k canvasWidth canvasHeight =
     createPuddles rnd
       \<lparr>canvas_width = canvasWidth, canvas_height = canvasHeight, groundHeight = 80,
        splashes = [], puddles = [], cursor = k\<rparr>"

definition onCanvasResize :: "(nat \<Rightarrow> real) \<Rightarrow> ground \<Rightarrow> ground" where
  "onCanvasResize rnd g = createPuddles rnd (g\<lparr>puddles := []\<rparr>)"

text \<open>
  The body of the \<^verbatim>\<open>for\<close> loop of \<^verbatim>\<open>createSplashParticles\<close>, run \<open>n\<close> times from draw
  \<open>k\<close>: five draws for each particle, in the order of the object literal.
\<close>

fun newParticles :: "(nat \<Rightarrow> real) \<Rightarrow> nat \<Rightarrow> real \<Rightarrow> real \<Rightarrow> nat \<Rightarrow> splash list" where
  "newParticles rnd k x y 0 = []"
| "newParticles rnd k x y (Suc n) =
     \<lparr>sp_x = x + (rnd k - 0.5) * 8, sp_y = y,
      sp_velocityX = (rnd (k + 1) - 0.5) * 60,
      sp_velocityY = - 20 - rnd (k + 2) * 30,
      sp_life = 1.0,
      sp_maxLife = 0.3 + rnd (k + 3) * 0.4,
      sp_size = 1 + rnd (k + 4) * 2,
      sp_impactY = y\<rparr> # newParticles rnd (k + 5) x y n"

text \<open>
  \<^verbatim>\<open>createSplashParticles\<close>: one draw for the count, the particles pushed at the end of
  the pool, then the cap: above 200 entries, \<^verbatim>\<open>slice(-150)\<close> keeps the last 150.
\<close>

definition createSplashParticles :: "(nat \<Rightarrow> real) \<Rightarrow> ground \<Rightarrow> real \<Rightarrow> real \<Rightarrow> ground" where
  "createSplashParticles rnd g x y =
     (let particleCount = 3 + \<lfloor>rnd (cursor g) * 4\<rfloor>;
          pushed = splashes g @ newParticles rnd (cursor g + 1) x y (nat particleCount);
          kept = (if length pushed > 200 then drop (length pushed - 150) pushed else pushed)
      in g\<lparr>splashes := kept, cursor := cursor g + 1 + 5 * nat particleCount\<rparr>)"

text \<open>
  \<^verbatim>\<open>addRipple\<close> returns the puddle with the ripple pushed; beyond six ripples,
  \<^verbatim>\<open>shift()\<close> drops the oldest.  (\<open>waterSurfaceY\<close> is computed and never read.)
\<close>

definition addRipple :: "ground \<Rightarrow> puddle \<Rightarrow> real \<Rightarrow> real \<Rightarrow> puddle" where
  "addRipple g puddle x y =
     (let puddleCenterX = pd_x puddle + pd_width puddle / 2;
          avgPuddleSize = (pd_width puddle + pd_height puddle) / 2;
          maxRadius = min (min (pd_width puddle * 0.4) (pd_height puddle * 0.4))
                          (avgPuddleSize * 0.6);
          pushed = pd_ripples puddle @
                   [\<lparr>rp_x = x - puddleCenterX, rp_y = 0, rp_radius = 0, rp_opacity = 1,
                     rp_maxRadius = maxRadius, rp_time = 0\<rparr>]
      in puddle\<lparr>pd_ripples := (if length pushed > 6 then tl pushed else pushed)\<rparr>)"

text \<open>The test made on one puddle inside the loop of \<^verbatim>\<open>addSplash\<close>, in both branches.\<close>

definition hitsPuddle :: "real \<Rightarrow> real \<Rightarrow> real \<Rightarrow> puddle \<Rightarrow> bool" where
  "hitsPuddle groundY x y puddle =
     (if isCompound puddle then
        (let mainLeft = pd_x puddle;
             mainRight = pd_x puddle + pd_width puddle;
             smallerLeft = pd_x puddle + overlapOffset puddle;
             smallerRight = smallerLeft + smallerWidth puddle;
             hitMain = (x \<ge> mainLeft \<and> x \<le> mainRight);
             hitSmaller = (x \<ge> smallerLeft \<and> x \<le> smallerRight);
             puddleBottom = groundY + pd_height puddle + 5
         in (hitMain \<or> hitSmaller) \<and> y > groundY \<and> y \<le> puddleBottom)
      else
        (let puddleLeft = pd_x puddle;
             puddleRight = pd_x puddle + pd_width puddle;
             puddleBottom = groundY + pd_height puddle + 5
         in x \<ge> puddleLeft \<and> x \<le> puddleRight \<and> y > groundY \<and> y \<le> puddleBottom))"

text \<open>
  The loop over the puddles: \<open>visited\<close> are the puddles already passed, the list argument
  those still to visit.  On the first hit the puddle gets its ripple, the splash
  particles are created and the loop breaks; the result carries \<open>hitPuddle\<close>.
\<close>

fun puddleLoop ::
  "(nat \<Rightarrow> real) \<Rightarrow> ground \<Rightarrow> real \<Rightarrow> real \<Rightarrow> puddle list \<Rightarrow> puddle list \<Rightarrow> ground \<times> bool" where
  "puddleLoop rnd g x y visited [] = (g, False)"
| "puddleLoop rnd g x y visited (puddle # rest) =
     (if hitsPuddle (getGroundY g) x y puddle
      then (createSplashParticles rnd
              (g\<lparr>puddles := visited @ addRipple g puddle x y # rest\<rparr>) x y, True)
      else puddleLoop rnd g x y (visited @ [puddle]) rest)"

text \<open>
  \<^verbatim>\<open>addSplash\<close>.  The locals \<open>maxPuddleHeight\<close> and \<open>puddleDepthRange\<close> of the source are
  computed and never read (with no puddle they are \<open>-Infinity\<close>), so they have no part
  in the result.
\<close>

definition addSplash :: "(nat \<Rightarrow> real) \<Rightarrow> ground \<Rightarrow> real \<Rightarrow> real \<Rightarrow> ground" where
  "addSplash rnd g x y =
     (let groundY = getGroundY g;
          (g1, hitPuddle) = puddleLoop rnd g x y [] (puddles g)
      in if \<not> hitPuddle \<and> y > groundY then createSplashParticles rnd g1 x y else g1)"

text \<open>The two \<^verbatim>\<open>filter\<close> callbacks of \<^verbatim>\<open>update\<close>: the step made on the element, and the test.\<close>

definition splashStep :: "real \<Rightarrow> splash \<Rightarrow> splash" where
  "splashStep deltaTime s =
     (let x = sp_x s + sp_velocityX s * deltaTime * 0.001;
          y = sp_y s + sp_velocityY s * deltaTime * 0.001;
          vy = sp_velocityY s + 980 * deltaTime * 0.001;
          velocityX = sp_velocityX s * 0.98;
          velocityY = vy * 0.995;
          life = sp_life s - (deltaTime * 0.001) / sp_maxLife s
      in s\<lparr>sp_x := x, sp_y := y, sp_velocityX := velocityX, sp_velocityY := velocityY,
           sp_life := life\<rparr>)"

definition splashKept :: "splash \<Rightarrow> bool" where
  "splashKept s \<longleftrightarrow> sp_life s > 0 \<and> sp_y s \<le> sp_impactY s"

definition rippleStep :: "real \<Rightarrow> ripple \<Rightarrow> ripple" where
  "rippleStep deltaTime r =
     (let time = rp_time r + deltaTime * 0.001;
          radius = time * 20;
          opacity = max 0 (1 - time * 1.2)
      in r\<lparr>rp_time := time, rp_radius := radius, rp_opacity := opacity\<rparr>)"

definition rippleKept :: "ripple \<Rightarrow> bool" where
  "rippleKept r \<longleftrightarrow> rp_radius r < rp_maxRadius r \<and> rp_opacity r > 0"

definition updatePuddle :: "real \<Rightarrow> puddle \<Rightarrow> puddle" where
  "updatePuddle deltaTime puddle =
     puddle\<lparr>pd_ripples := filter rippleKept (map (rippleStep deltaTime) (pd_ripples puddle))\<rparr>"

definition Ground_update :: "ground \<Rightarrow> real \<Rightarrow> ground" where
  "Ground_update g deltaTime =
     g\<lparr>splashes := filter splashKept (map (splashStep deltaTime) (splashes g)),
       puddles := map (updatePuddle deltaTime) (puddles g)\<rparr>"

text \<open>
  The states of a ground: built by the constructor, then any sequence of impacts,
  updates with a non-negative time step, canvas resizes, and draws made from the random
  sequence by the rest of the scene.
\<close>

inductive reachable_ground :: "(nat \<Rightarrow> real) \<Rightarrow> ground \<Rightarrow> bool" for rnd where
  ground_new: "reachable_ground rnd (Ground_new rnd k canvasWidth canvasHeight)"
| ground_splash: "reachable_ground rnd g \<Longrightarrow> reachable_ground rnd (addSplash rnd g x y)"
| ground_update: "reachable_ground rnd g \<Longrightarrow> 0 \<le> deltaTime \<Longrightarrow>
                  reachable_ground rnd (Ground_update g deltaTime)"
| ground_resize: "reachable_ground rnd g \<Longrightarrow>
                  reachable_ground rnd
                    (onCanvasResize rnd (g\<lparr>canvas_width := w, canvas_height := h\<rparr>))"
| ground_draws: "reachable_ground rnd g \<Longrightarrow> reachable_ground rnd (g\<lparr>cursor := cursor g + n\<rparr>)"

text \<open>
  A ripple is consistent when radius and opacity are the functions of its elapsed time
  that \<open>update\<close> makes them; \<open>addRipple\<close> creates it so.
\<close>

definition ripple_consistent :: "ripple \<Rightarrow> bool" where
  "ripple_consistent r \<longleftrightarrow>
     0 \<le> rp_time r \<and> rp_radius r = rp_time r * 20 \<and> rp_opacity r = max 0 (1 - rp_time r * 1.2)"

definition ground_inv :: "ground \<Rightarrow> bool" where
  "ground_inv g \<longleftrightarrow>
     length (splashes g) \<le> 200 \<and>
     (\<forall>s \<in> set (splashes g). 0.3 \<le> sp_maxLife s \<and> sp_maxLife s < 0.7) \<and>
     (\<forall>p \<in> set (puddles g). \<forall>r \<in> set (pd_ripples p). ripple_consistent r)"

text \<open>The removal test for a splash particle in the words of the specification.\<close>

definition spec_removed :: "splash \<Rightarrow> bool" where
  "spec_removed s \<longleftrightarrow> sp_life s \<le> 0 \<or> sp_y s \<ge> sp_impactY s"

text \<open>
  A ground for concrete runs: canvas 800 by 600, every draw 1/2; the ground line is at
  520 and the puddles span 90 to 230, 275 to 525 (with the smaller part from 450 to 545)
  and 607.5 to 672.5.
\<close>

definition example_ground :: ground where
  "example_ground = Ground_new (const_draws (1/2)) 0 800 600"

text \<open>
  The same ground after an impact on dry ground at \<open>(5, 521)\<close>, and after an impact at
  \<open>(540, 521)\<close>, inside the smaller part of the compound puddle only; the splash
  particle and the ripple that these impacts create.
\<close>

definition example_dry :: ground where
  "example_dry = addSplash (const_draws (1/2)) example_ground 5 521"

definition example_wet :: ground where
  "example_wet = addSplash (const_draws (1/2)) example_ground 540 521"

definition example_splash :: splash where
  "example_splash =
     \<lparr>sp_x = 5, sp_y = 521, sp_velocityX = 0, sp_velocityY = - 35, sp_life = 1,
      sp_maxLife = 1 / 2, sp_size = 2, sp_impactY = 521\<rparr>"

definition example_ripple :: ripple where
  "example_ripple =
     \<lparr>rp_x = 140, rp_y = 0, rp_radius = 0, rp_opacity = 1, rp_maxRadius = 17, rp_time = 0\<rparr>"

text \<open>The hit test in the words of the specification.\<close>

definition spec_in_span :: "puddle \<Rightarrow> real \<Rightarrow> bool" where
  "spec_in_span p x \<longleftrightarrow>
     (pd_x p \<le> x \<and> x \<le> pd_x p + pd_width p) \<or>
     (isCompound p \<and> pd_x p + overlapOffset p \<le> x \<and>
      x \<le> pd_x p + overlapOffset p + smallerWidth p)"

definition spec_hit :: "ground \<Rightarrow> real \<Rightarrow> real \<Rightarrow> puddle \<Rightarrow> bool" where
  "spec_hit g x y p \<longleftrightarrow>
     spec_in_span p x \<and> getGroundY g < y \<and> y \<le> getGroundY g + pd_height p + 5"

section \<open>Ground without puddles (src/ground.ts)\<close>

record simple_splash =
  ss_x :: real
  ss_y :: real
  ss_velocityX :: real
  ss_velocityY :: real
  ss_life :: real
  ss_maxLife :: real
  ss_size :: real

record simple_ground =
  sg_canvas_width :: real
  sg_canvas_height :: real
  sg_groundHeight :: real
  sg_splashes :: "simple_splash list"
  sg_cursor :: nat

fun simple_newParticles ::
  "(nat \<Rightarrow> real) \<Rightarrow> nat \<Rightarrow> real \<Rightarrow> real \<Rightarrow> nat \<Rightarrow> simple_splash list" where
  "simple_newParticles rnd k x y 0 = []"
| "simple_newParticles rnd k x y (Suc n) =
     \<lparr>ss_x = x + (rnd k - 0.5) * 8, ss_y = y,
      ss_velocityX = (rnd (k + 1) - 0.5) * 60,
      ss_velocityY = - 20 - rnd (k + 2) * 30,
      ss_life = 1.0,
      ss_maxLife = 0.3 + rnd (k + 3) * 0.4,
      ss_size = 1 + rnd (k + 4) * 2\<rparr> # simple_newParticles rnd (k + 5) x y n"

definition simple_addSplash ::
  "(nat \<Rightarrow> real) \<Rightarrow> simple_ground \<Rightarrow> real \<Rightarrow> real \<Rightarrow> simple_ground" where
  "simple_addSplash rnd g x y =
     (let particleCount = 3 + \<lfloor>rnd (sg_cursor g) * 4\<rfloor>;
          pushed = sg_splashes g @
                   simple_newParticles rnd (sg_cursor g + 1) x y (nat particleCount);
          kept = (if length pushed > 200 then drop (length pushed - 150) pushed else pushed)
      in g\<lparr>sg_splashes := kept, sg_cursor := sg_cursor g + 1 + 5 * nat particleCount\<rparr>)"


section \<open>Lightning (src/rainScene.ts, second part)\<close>

record lightningBranch =
  startX :: real
  startY :: real
  endX :: real
  endY :: real
  segments :: "(real \<times> real) list"

text \<open>
  \<open>onStrikeCallback\<close> records whether a callback was given to the constructor; the
  delays handed to \<^verbatim>\<open>setTimeout\<close> are collected in \<open>thunderDelays\<close>.  \<open>lt_cursor\<close> is the
  index of the next draw from the random sequence.
\<close>

record lightning =
  isActive :: bool
  duration :: real
  maxDuration :: real
  intensity :: real
  branches :: "lightningBranch list"
  lastStrike :: real
  nextStrikeDelay :: real
  onStrikeCallback :: bool
  thunderDelays :: "real list"
  lt_cursor :: nat

text \<open>
  \<^verbatim>\<open>generateLightningPath\<close>: one draw for \<open>numSegments\<close>, a real number; the loop runs for
  the integers \<open>i\<close> with \<open>1 \<le> i < numSegments\<close>, one draw each.  The result is the path
  and the index of the next draw.
\<close>

definition generateLightningPath ::
  "(nat \<Rightarrow> real) \<Rightarrow> nat \<Rightarrow> real \<Rightarrow> real \<Rightarrow> real \<Rightarrow> real \<Rightarrow> (real \<times> real) list \<times> nat" where
  "generateLightningPath rnd k sx sy ex ey =
     (let numSegments = 8 + rnd k * 8;
          bound = nat \<lceil>numSegments\<rceil>;
          inner = map (\<lambda>i. (let progress = real i / numSegments;
                                x = sx + (ex - sx) * progress + (rnd (k + i) - 0.5) * 50;
                                y = sy + (ey - sy) * progress
                            in (x, y))) [1 ..< bound]
      in ([(sx, sy)] @ inner @ [(ex, ey)], k + 1 + (bound - 1)))"

text \<open>The loop of \<^verbatim>\<open>createBranches\<close>, run \<open>n\<close> times from draw \<open>c\<close>.\<close>

fun branchLoop ::
  "(nat \<Rightarrow> real) \<Rightarrow> nat \<Rightarrow> real \<Rightarrow> real \<Rightarrow> nat \<Rightarrow> lightningBranch list \<times> nat" where
  "branchLoop rnd c canvasWidth canvasHeight 0 = ([], c)"
| "branchLoop rnd c canvasWidth canvasHeight (Suc n) =
     (let sx = rnd c * canvasWidth;
          sy = 0;
          ex = sx + (rnd (c + 1) - 0.5) * canvasWidth * 0.3;
          ey = rnd (c + 2) * canvasHeight * 0.6 + canvasHeight * 0.2;
          (segs, c1) = generateLightningPath rnd (c + 3) sx sy ex ey;
          (bs, c2) = branchLoop rnd c1 canvasWidth canvasHeight n
      in (\<lparr>startX = sx, startY = sy, endX = ex, endY = ey, segments = segs\<rparr> # bs, c2))"

text \<open>
  \<^verbatim>\<open>createBranches\<close>: \<open>numBranches\<close> is a real number and the loop counter runs over the
  integers below it, from 0.
\<close>

definition createBranches ::
  "(nat \<Rightarrow> real) \<Rightarrow> nat \<Rightarrow> real \<Rightarrow> real \<Rightarrow> lightningBranch list \<times> nat" where
  "createBranches rnd k canvasWidth canvasHeight =
     (let numBranches = rnd k * 3 + 2
      in branchLoop rnd (k + 1) canvasWidth canvasHeight (nat \<lceil>numBranches\<rceil>))"

definition scheduleNextStrike :: "(nat \<Rightarrow> real) \<Rightarrow> lightning \<Rightarrow> lightning" where
  "scheduleNextStrike rnd l =
     l\<lparr>nextStrikeDelay := rnd (lt_cursor l) * 8000 + 2000, lt_cursor := lt_cursor l + 1\<rparr>"

definition Lightning_new :: "(nat \<Rightarrow> real) \<Rightarrow> nat \<Rightarrow> bool \<Rightarrow> lightning" where
  "Lightning_new rnd k callback =
     scheduleNextStrike rnd
       \<lparr>isActive = False, duration = 0, maxDuration = 200, intensity = 0, branches = [],
        lastStrike = 0, nextStrikeDelay = 0, onStrikeCallback = callback,
        thunderDelays = [], lt_cursor = k\<rparr>"

text \<open>
  \<^verbatim>\<open>strike\<close>; \<open>now\<close> is the value of \<^verbatim>\<open>Date.now()\<close>.  The intensity is
  \<^verbatim>\<open>Math.random() * 0.8 + 0.2\<close> in binary64: the product is rounded, then the sum.
\<close>

definition strike :: "(nat \<Rightarrow> real) \<Rightarrow> lightning \<Rightarrow> real \<Rightarrow> real \<Rightarrow> real \<Rightarrow> lightning" where
  "strike rnd l canvasWidth canvasHeight now =
     (let l1 = l\<lparr>isActive := True, duration := 0,
                 intensity := fl64 (fl64 (rnd (lt_cursor l) * lit_0_8) + lit_0_2)\<rparr>;
          (bs, c) = createBranches rnd (lt_cursor l + 1) canvasWidth canvasHeight;
          l2 = scheduleNextStrike rnd (l1\<lparr>branches := bs, lastStrike := now, lt_cursor := c\<rparr>)
      in if onStrikeCallback l2
         then l2\<lparr>thunderDelays := thunderDelays l2 @ [100 + rnd (lt_cursor l2) * 300],
                 lt_cursor := lt_cursor l2 + 1\<rparr>
         else l2)"

text \<open>
  \<^verbatim>\<open>update\<close>; the clock is read once in a call, and \<open>now\<close> is its value.  The draw for
  the 30% chance is made only when the delay has passed.
\<close>

definition Lightning_update ::
  "(nat \<Rightarrow> real) \<Rightarrow> lightning \<Rightarrow> real \<Rightarrow> real \<Rightarrow> real \<Rightarrow> real \<Rightarrow> lightning" where
  "Lightning_update rnd l canvasWidth canvasHeight deltaTime now =
     (if isActive l then
        (let l1 = l\<lparr>duration := duration l + deltaTime\<rparr>
         in if duration l1 \<ge> maxDuration l1 then l1\<lparr>isActive := False\<rparr> else l1)
      else if now - lastStrike l > nextStrikeDelay l then
        (let l1 = l\<lparr>lt_cursor := lt_cursor l + 1\<rparr>
         in if rnd (lt_cursor l) < 0.3 then strike rnd l1 canvasWidth canvasHeight now else l1)
      else l)"

definition getFlashIntensity :: "lightning \<Rightarrow> real" where
  "getFlashIntensity l =
     (if \<not> isActive l then 0
      else (let progress = duration l / maxDuration l
            in if progress < 0.1 then intensity l * (progress / 0.1)
               else intensity l * (1 - (progress - 0.1) / 0.9)))"

text \<open>
  The states of a lightning generator: built by the constructor, then any interleaving
  of \<open>strike\<close> and of \<open>update\<close> with a non-negative time step, and of draws made from the
  random sequence by the rest of the scene.
\<close>

inductive reachable_lightning :: "(nat \<Rightarrow> real) \<Rightarrow> lightning \<Rightarrow> bool" for rnd where
  lightning_new: "reachable_lightning rnd (Lightning_new rnd k callback)"
| lightning_strike: "reachable_lightning rnd l \<Longrightarrow>
                     reachable_lightning rnd (strike rnd l canvasWidth canvasHeight now)"
| lightning_update: "reachable_lightning rnd l \<Longrightarrow> 0 \<le> deltaTime \<Longrightarrow>
                     reachable_lightning rnd
                       (Lightning_update rnd l canvasWidth canvasHeight deltaTime now)"
| lightning_draws: "reachable_lightning rnd l \<Longrightarrow>
                    reachable_lightning rnd (l\<lparr>lt_cursor := lt_cursor l + n\<rparr>)"

definition lightning_inv :: "lightning \<Rightarrow> bool" where
  "lightning_inv l \<longleftrightarrow>
     maxDuration l = 200 \<and> 0 \<le> intensity l \<and> intensity l \<le> 1 \<and>
     (isActive l \<longrightarrow> 0 \<le> duration l \<and> duration l < maxDuration l)"

text \<open>The envelope in the words of the specification, for a fraction \<open>p\<close>.\<close>

definition spec_envelope :: "real \<Rightarrow> real \<Rightarrow> real" where
  "spec_envelope baseIntensity p =
     (if p < 0.1 then baseIntensity * (p / 0.1) else baseIntensity * (1 - (p - 0.1) / 0.9))"

text \<open>
  A generator for concrete runs: built with a callback, struck at once on a canvas of
  800 by 600 with every draw 1/2 (the intensity is the binary64 number next above 0.6),
  and the same after a frame of 16 ms.
\<close>

definition example_strike :: lightning where
  "example_strike =
     strike (const_draws (1/2)) (Lightning_new (const_draws (1/2)) 0 True) 800 600 1000"

definition example_flash :: lightning where
  "example_flash = Lightning_update (const_draws (1/2)) example_strike 800 600 16 1016"

text \<open>
  The generator struck when every draw is \<open>1 - 2^-53\<close>, the greatest binary64 number below
  1, and the same after a frame of 20 ms, a tenth of \<open>maxDuration\<close>.
\<close>

definition brightest_strike :: lightning where
  "brightest_strike =
     strike (const_draws (1 - 1 / 2 ^ 53)) (Lightning_new (const_draws (1 - 1 / 2 ^ 53)) 0 False)
       800 600 1000"

definition brightest_flash :: lightning where
  "brightest_flash =
     Lightning_update (const_draws (1 - 1 / 2 ^ 53)) brightest_strike 800 600 20 1020"

section \<open>RainScene (src/rainScene.ts, first part)\<close>

text \<open>
  The scene state keeps the canvas size, the raindrops, the lightning generator and the
  settings.  The stars and the drawing code read and write none of these; of
  \<^verbatim>\<open>createStars\<close> only its 600 draws (150 stars, four draws each) are kept.
\<close>

record rainScene =
  sc_canvas_width :: real
  sc_canvas_height :: real
  raindrops :: "raindrop list"
  sc_lightning :: lightning
  lastTime :: real
  rainEnabled :: bool
  lightningEnabled :: bool
  rainIntensity :: int
  sc_cursor :: nat

datatype scene_error = NoContext

text \<open>\<open>n\<close> calls of the \<^verbatim>\<open>Raindrop\<close> constructor, from draw \<open>k\<close>.\<close>

fun newRaindrops :: "(nat \<Rightarrow> real) \<Rightarrow> nat \<Rightarrow> real \<Rightarrow> real \<Rightarrow> nat \<Rightarrow> raindrop list" where
  "newRaindrops rnd k canvasWidth canvasHeight 0 = []"
| "newRaindrops rnd k canvasWidth canvasHeight (Suc n) =
     Raindrop_new rnd k canvasWidth canvasHeight #
     newRaindrops rnd (k + 8) canvasWidth canvasHeight n"

definition createStars :: "rainScene \<Rightarrow> rainScene" where
  "createStars s = s\<lparr>sc_cursor := sc_cursor s + 600\<rparr>"

definition createRain :: "(nat \<Rightarrow> real) \<Rightarrow> rainScene \<Rightarrow> rainScene" where
  "createRain rnd s =
     s\<lparr>raindrops := newRaindrops rnd (sc_cursor s) (sc_canvas_width s) (sc_canvas_height s)
                       (nat (rainIntensity s)),
       sc_cursor := sc_cursor s + 8 * nat (rainIntensity s)\<rparr>"

text \<open>\<^verbatim>\<open>resizeCanvas\<close>, given the window's inner width and height.\<close>

definition resizeCanvas :: "(nat \<Rightarrow> real) \<Rightarrow> rainScene \<Rightarrow> real \<Rightarrow> real \<Rightarrow> rainScene" where
  "resizeCanvas rnd s innerWidth innerHeight =
     createRain rnd
       (createStars (s\<lparr>sc_canvas_width := innerWidth, sc_canvas_height := innerHeight\<rparr>))"

text \<open>
  The constructor throws when the canvas gives no 2D context.  Otherwise it builds the
  lightning generator (without callback), then \<open>setupCanvas\<close> resizes the canvas, and
  stars and rain are created a second time.  The canvas size before the resize plays
  no part.
\<close>

definition RainScene_new ::
  "(nat \<Rightarrow> real) \<Rightarrow> nat \<Rightarrow> bool \<Rightarrow> real \<Rightarrow> real \<Rightarrow> scene_error + rainScene" where
  "RainScene_new rnd k hasContext innerWidth innerHeight =
     (if \<not> hasContext then Inl NoContext
      else
        (let l = Lightning_new rnd k False;
             s0 = \<lparr>sc_canvas_width = 0, sc_canvas_height = 0, raindrops = [],
                   sc_lightning = l, lastTime = 0, rainEnabled = True,
                   lightningEnabled = True, rainIntensity = 200, sc_cursor = lt_cursor l\<rparr>;
             s1 = resizeCanvas rnd s0 innerWidth innerHeight
         in Inr (createRain rnd (createStars s1))))"

definition changeRainIntensity :: "(nat \<Rightarrow> real) \<Rightarrow> rainScene \<Rightarrow> int \<Rightarrow> rainScene" where
  "changeRainIntensity rnd s delta =
     (let newIntensity = max 50 (min 500 (rainIntensity s + delta));
          s1 = (if newIntensity > rainIntensity s then
                  (let toAdd = newIntensity - rainIntensity s
                   in s\<lparr>raindrops := raindrops s @
                          newRaindrops rnd (sc_cursor s) (sc_canvas_width s)
                            (sc_canvas_height s) (nat toAdd),
                        sc_cursor := sc_cursor s + 8 * nat toAdd\<rparr>)
                else if newIntensity < rainIntensity s then
                  s\<lparr>raindrops := take (nat newIntensity) (raindrops s)\<rparr>
                else s)
      in s1\<lparr>rainIntensity := newIntensity\<rparr>)"

text \<open>The \<^verbatim>\<open>forEach\<close> of \<^verbatim>\<open>update\<close>: each drop is advanced, and reset once out of bounds.\<close>

fun updateDrops ::
  "(nat \<Rightarrow> real) \<Rightarrow> nat \<Rightarrow> real \<Rightarrow> real \<Rightarrow> raindrop list \<Rightarrow> raindrop list \<times> nat" where
  "updateDrops rnd k canvasWidth canvasHeight [] = ([], k)"
| "updateDrops rnd k canvasWidth canvasHeight (d # ds) =
     (let d1 = Raindrop_update d canvasHeight
      in if isOutOfBounds d1 canvasHeight
         then (let (ds', k') = updateDrops rnd (k + 5) canvasWidth canvasHeight ds
               in (Raindrop_reset rnd k d1 canvasWidth # ds', k'))
         else (let (ds', k') = updateDrops rnd k canvasWidth canvasHeight ds
               in (d1 # ds', k')))"

text \<open>\<^verbatim>\<open>update(currentTime)\<close>; \<open>now\<close> is the value of \<^verbatim>\<open>Date.now()\<close> during the call.\<close>

definition RainScene_update :: "(nat \<Rightarrow> real) \<Rightarrow> rainScene \<Rightarrow> real \<Rightarrow> real \<Rightarrow> rainScene" where
  "RainScene_update rnd s currentTime now =
     (let deltaTime = currentTime - lastTime s;
          s1 = s\<lparr>lastTime := currentTime\<rparr>;
          s2 = (if lightningEnabled s1 then
                  (let l = Lightning_update rnd (sc_lightning s1\<lparr>lt_cursor := sc_cursor s1\<rparr>)
                             (sc_canvas_width s1) (sc_canvas_height s1) deltaTime now
                   in s1\<lparr>sc_lightning := l, sc_cursor := lt_cursor l\<rparr>)
                else s1)
      in if rainEnabled s2 then
           (let (ds, k) = updateDrops rnd (sc_cursor s2) (sc_canvas_width s2)
                            (sc_canvas_height s2) (raindrops s2)
            in s2\<lparr>raindrops := ds, sc_cursor := k\<rparr>)
         else s2)"

text \<open>
  The states of a scene: built by the constructor, then any sequence of clicks on the
  four buttons (the intensity buttons call \<open>changeRainIntensity\<close> with 50 and -50),
  window resizes and frames.
\<close>

inductive reachable_scene :: "(nat \<Rightarrow> real) \<Rightarrow> rainScene \<Rightarrow> bool" for rnd where
  scene_new: "RainScene_new rnd k True innerWidth innerHeight = Inr s \<Longrightarrow> reachable_scene rnd s"
| scene_increase: "reachable_scene rnd s \<Longrightarrow> reachable_scene rnd (changeRainIntensity rnd s 50)"
| scene_decrease: "reachable_scene rnd s \<Longrightarrow> reachable_scene rnd (changeRainIntensity rnd s (- 50))"
| scene_toggleRain: "reachable_scene rnd s \<Longrightarrow>
                     reachable_scene rnd (s\<lparr>rainEnabled := \<not> rainEnabled s\<rparr>)"
| scene_toggleLightning: "reachable_scene rnd s \<Longrightarrow>
                          reachable_scene rnd (s\<lparr>lightningEnabled := \<not> lightningEnabled s\<rparr>)"
| scene_resize: "reachable_scene rnd s \<Longrightarrow>
                 reachable_scene rnd (resizeCanvas rnd s innerWidth innerHeight)"
| scene_update: "reachable_scene rnd s \<Longrightarrow>
                 reachable_scene rnd (RainScene_update rnd s currentTime now)"

text \<open>A scene for concrete runs: window 800 by 600, every draw 1/2.\<close>

definition example_scene :: rainScene where
  "example_scene = projr (RainScene_new (const_draws (1/2)) 0 True 800 600)"

definition scene_inv :: "rainScene \<Rightarrow> bool" where
  "scene_inv s \<longleftrightarrow>
     int (length (raindrops s)) = rainIntensity s \<and>
     50 \<le> rainIntensity s \<and> rainIntensity s \<le> 500 \<and> rainIntensity s mod 50 = 0"


section \<open>Facts about the random sequence\<close>

lemma valid_randomD: "valid_random rnd \<Longrightarrow> 0 \<le> rnd n \<and> rnd n < 1"
  by (simp add: valid_random_def)

lemma valid_const_draws: "0 \<le> c \<Longrightarrow> c < 1 \<Longrightarrow> valid_random (const_draws c)"
  by (simp add: valid_random_def const_draws_def)

section \<open>Raindrop: the velocity invariant\<close>

lemma fresh_drop_inv:
  fixes w l v a :: real
  assumes "1 \<le> w" "10 \<le> l" "v < 3" "0.3 \<le> a"
  shows "v \<le> 8 + w * l * 0.1 * 2 \<and> v < 49 * a"
proof -
  have "1 * 10 \<le> w * l"
    using assms(1,2) by (intro mult_mono) auto
  then have "10 \<le> w * l" by simp
  moreover have "w * l * 0.1 * 2 = (w * l) / 5" by simp
  ultimately show ?thesis using assms(3,4) by linarith
qed

lemma drop_inv_new:
  assumes "valid_random rnd"
  shows "drop_inv (Raindrop_new rnd k w h)"
proof -
  note r = valid_randomD[OF assms]
  have "rnd (k + 6) * 2 + 1 \<le> 8 + (rnd (k + 5) * 2 + 1) * (rnd (k + 3) * 20 + 10) * 0.1 * 2
      \<and> rnd (k + 6) * 2 + 1 < 49 * (0.3 + rnd (k + 7) * 0.2)"
    using r[of "k+5"] r[of "k+3"] r[of "k+6"] r[of "k+7"]
    by (intro fresh_drop_inv) auto
  then show ?thesis
    using r[of "k+5"]
    by (simp add: drop_inv_def Raindrop_new_def Let_def mult.commute)
qed

lemma drop_inv_reset:
  assumes "valid_random rnd" "drop_inv d"
  shows "drop_inv (Raindrop_reset rnd k d w)"
proof -
  note r = valid_randomD[OF assms(1)]
  have "rnd (k + 3) * 2 + 1 \<le> 8 + rd_width d * (rnd (k + 1) * 20 + 10) * 0.1 * 2
      \<and> rnd (k + 3) * 2 + 1 < 49 * (0.3 + rnd (k + 4) * 0.2)"
    using r[of "k+1"] r[of "k+3"] r[of "k+4"] assms(2)
    by (intro fresh_drop_inv) (auto simp: drop_inv_def)
  then show ?thesis
    using assms(2)
    by (simp add: drop_inv_def Raindrop_reset_def Let_def mult.commute)
qed

lemma update_velocity:
  "rd_velocityY (Raindrop_update d h) =
     (if rd_velocityY d < rd_terminalVelocity d
      then min ((rd_velocityY d + rd_acceleration d) - (rd_velocityY d + rd_acceleration d) * 0.02)
               (rd_terminalVelocity d)
      else rd_velocityY d)"
  "rd_terminalVelocity (Raindrop_update d h) = rd_terminalVelocity d"
  "rd_acceleration (Raindrop_update d h) = rd_acceleration d"
  "rd_width (Raindrop_update d h) = rd_width d"
  by (simp_all add: Raindrop_update_def Let_def field_simps)

text \<open>
  Below \<open>49 * a\<close>, the fixed point of \<open>v \<mapsto> (v + a) - (v + a) * 0.02\<close>, one step of
  acceleration and drag increases the velocity and keeps it below \<open>49 * a\<close>.
\<close>

lemma drag_step:
  fixes v a :: real
  assumes "v < 49 * a"
  shows "v < (v + a) - (v + a) * 0.02" and "(v + a) - (v + a) * 0.02 < 49 * a"
  using assms by (simp_all add: field_simps)

lemma drop_inv_update:
  assumes "drop_inv d"
  shows "drop_inv (Raindrop_update d h)"
proof -
  have a: "rd_velocityY d < 49 * rd_acceleration d" "rd_velocityY d \<le> rd_terminalVelocity d"
    "1 \<le> rd_width d"
    using assms by (simp_all add: drop_inv_def)
  show ?thesis
    unfolding drop_inv_def update_velocity
    using a drag_step[OF a(1)] by (simp add: min_def)
qed

lemma reachable_drop_inv:
  assumes "valid_random rnd" "reachable_drop rnd d"
  shows "drop_inv d"
  using assms(2)
proof (induction rule: reachable_drop.induct)
  case (drop_new k canvasWidth canvasHeight)
  show ?case by (rule drop_inv_new[OF assms(1)])
next
  case (drop_update d canvasHeight)
  then show ?case by (simp add: drop_inv_update)
next
  case (drop_reset d k canvasWidth)
  then show ?case by (simp add: drop_inv_reset[OF assms(1)])
qed

text \<open>
  C2: a raindrop built by the constructor, after any sequence of \<open>update\<close> and \<open>reset\<close>
  calls, has a vertical velocity that does not exceed its terminal velocity.
\<close>

theorem velocity_never_exceeds_terminal:
  assumes "valid_random rnd" and "reachable_drop rnd d"
  shows "rd_velocityY d \<le> rd_terminalVelocity d"
  using reachable_drop_inv[OF assms] by (simp add: drop_inv_def)

theorem velocity_never_exceeds_terminal_witness:
  "valid_random (const_draws (1/2)) \<and>
   reachable_drop (const_draws (1/2))
     (Raindrop_update (Raindrop_update (Raindrop_new (const_draws (1/2)) 0 800 600) 600) 600) \<and>
   rd_velocityY
     (Raindrop_update (Raindrop_update (Raindrop_new (const_draws (1/2)) 0 800 600) 600) 600)
   \<le> rd_terminalVelocity
     (Raindrop_update (Raindrop_update (Raindrop_new (const_draws (1/2)) 0 800 600) 600) 600)"
proof -
  have v: "valid_random (const_draws (1/2))" by (simp add: valid_const_draws)
  have r: "reachable_drop (const_draws (1/2))
     (Raindrop_update (Raindrop_update (Raindrop_new (const_draws (1/2)) 0 800 600) 600) 600)"
    by (intro drop_update drop_new)
  show ?thesis using v r velocity_never_exceeds_terminal[OF v r] by simp
qed

text \<open>
  C4: on an \<open>update\<close> call made while the velocity of a reachable raindrop is below its
  terminal velocity, the new velocity is the old one plus the acceleration, minus the
  drag (0.02 of that sum), clamped to the terminal velocity; it is not less than the
  old velocity and at most the terminal velocity.  (In exact arithmetic the new
  velocity is greater than the old one; in binary64 the step can leave a velocity
  within one unit in the last place of \<open>49 * acceleration\<close> unchanged, so no more than
  this is stated.)
\<close>

theorem velocity_not_decreasing_below_terminal:
  assumes "valid_random rnd" and "reachable_drop rnd d"
    and "rd_velocityY d < rd_terminalVelocity d"
  shows "rd_velocityY (Raindrop_update d canvasHeight) =
           min ((rd_velocityY d + rd_acceleration d) - (rd_velocityY d + rd_acceleration d) * 0.02)
               (rd_terminalVelocity d)
       \<and> rd_velocityY d \<le> rd_velocityY (Raindrop_update d canvasHeight)
       \<and> rd_velocityY (Raindrop_update d canvasHeight) \<le> rd_terminalVelocity d"
proof -
  have "rd_velocityY d < 49 * rd_acceleration d"
    using reachable_drop_inv[OF assms(1,2)] by (simp add: drop_inv_def)
  from drag_step(1)[OF this] assms(3) show ?thesis
    by (simp add: update_velocity)
qed

theorem velocity_not_decreasing_below_terminal_witness:
  "valid_random (const_draws (1/2)) \<and>
   reachable_drop (const_draws (1/2)) (Raindrop_new (const_draws (1/2)) 0 800 600) \<and>
   rd_velocityY (Raindrop_new (const_draws (1/2)) 0 800 600) = 2 \<and>
   rd_terminalVelocity (Raindrop_new (const_draws (1/2)) 0 800 600) = 16 \<and>
   rd_velocityY (Raindrop_update (Raindrop_new (const_draws (1/2)) 0 800 600) 600) = 2.352 \<and>
   rd_velocityY (Raindrop_new (const_draws (1/2)) 0 800 600)
     \<le> rd_velocityY (Raindrop_update (Raindrop_new (const_draws (1/2)) 0 800 600) 600)"
proof -
  have v: "valid_random (const_draws (1/2))" by (simp add: valid_const_draws)
  have r: "reachable_drop (const_draws (1/2)) (Raindrop_new (const_draws (1/2)) 0 800 600)"
    by (rule drop_new)
  have b: "rd_velocityY (Raindrop_new (const_draws (1/2)) 0 800 600)
             < rd_terminalVelocity (Raindrop_new (const_draws (1/2)) 0 800 600)"
    by (simp add: Raindrop_new_def const_draws_def Let_def)
  have e: "rd_velocityY (Raindrop_new (const_draws (1/2)) 0 800 600) = 2"
    "rd_terminalVelocity (Raindrop_new (const_draws (1/2)) 0 800 600) = 16"
    "rd_acceleration (Raindrop_new (const_draws (1/2)) 0 800 600) = 0.4"
    by (simp_all add: Raindrop_new_def const_draws_def Let_def)
  show ?thesis
    using v r velocity_not_decreasing_below_terminal[OF v r b, of 600] by (simp add: e)
qed

text \<open>
  C5, as the code has it: after \<open>reset(canvasWidth)\<close> with a positive canvas width, \<open>y\<close>
  is minus the length the raindrop had before the call, the length is drawn anew
  (between 10 and 30), and \<open>x\<close> lies in \<open>[0, canvasWidth)\<close>.
\<close>

theorem reset_position:
  assumes "valid_random rnd" and "0 < canvasWidth"
  shows "rd_y (Raindrop_reset rnd k d canvasWidth) = - rd_length d
       \<and> rd_length (Raindrop_reset rnd k d canvasWidth) = rnd (k + 1) * 20 + 10
       \<and> 0 \<le> rd_x (Raindrop_reset rnd k d canvasWidth)
       \<and> rd_x (Raindrop_reset rnd k d canvasWidth) < canvasWidth"
  using valid_randomD[OF assms(1), of k] assms(2)
  by (simp add: Raindrop_reset_def Let_def)

theorem reset_position_witness:
  "valid_random (const_draws (1/2)) \<and> (0::real) < 800 \<and>
   rd_y (Raindrop_reset (const_draws (1/2)) 8 (Raindrop_new (const_draws (1/4)) 0 800 600) 800)
     = - 15 \<and>
   rd_length (Raindrop_reset (const_draws (1/2)) 8 (Raindrop_new (const_draws (1/4)) 0 800 600) 800)
     = 20 \<and>
   rd_x (Raindrop_reset (const_draws (1/2)) 8 (Raindrop_new (const_draws (1/4)) 0 800 600) 800)
     < 800"
proof -
  have v: "valid_random (const_draws (1/2))" by (simp add: valid_const_draws)
  have w: "(0::real) < 800" by simp
  have l: "rd_length (Raindrop_new (const_draws (1/4)) 0 800 600) = 15"
    by (simp add: Raindrop_new_def const_draws_def Let_def)
  show ?thesis
    using v reset_position[OF v w, of 8 "Raindrop_new (const_draws (1/4)) 0 800 600"]
    by (simp add: l const_draws_def)
qed

text \<open>
  C5, as the claim states it, fails: a raindrop of length 15 is reset with the draw 1/2
  for the new length; the resulting state has \<open>y = -15\<close> and length 20.
\<close>

theorem reset_y_counterexample:
  "rd_y (Raindrop_reset (const_draws (1/2)) 8 (Raindrop_new (const_draws (1/4)) 0 800 600) 800)
     \<noteq> - rd_length
           (Raindrop_reset (const_draws (1/2)) 8 (Raindrop_new (const_draws (1/4)) 0 800 600) 800)"
  by (simp add: Raindrop_reset_def Raindrop_new_def const_draws_def Let_def)


section \<open>Ground: particles, the puddle loop and the invariant\<close>

lemma length_newParticles: "length (newParticles rnd k x y n) = n"
  by (induction n arbitrary: k) simp_all

lemma newParticles_fields:
  "s \<in> set (newParticles rnd k x y n) \<Longrightarrow> sp_y s = y \<and> sp_impactY s = y \<and> sp_life s = 1"
  by (induction n arbitrary: k) auto

lemma particleCount_range:
  assumes "valid_random rnd"
  shows "3 \<le> nat (3 + \<lfloor>rnd k * 4\<rfloor>) \<and> nat (3 + \<lfloor>rnd k * 4\<rfloor>) \<le> 6"
proof -
  note r = valid_randomD[OF assms, of k]
  have "0 \<le> rnd k * 4" "rnd k * 4 < 4" using r by simp_all
  then have "0 \<le> \<lfloor>rnd k * 4\<rfloor>" "\<lfloor>rnd k * 4\<rfloor> < 4"
    by (simp_all add: floor_less_iff)
  then show ?thesis by linarith
qed

lemma csp_fields:
  "puddles (createSplashParticles rnd g x y) = puddles g"
  "canvas_width (createSplashParticles rnd g x y) = canvas_width g"
  "canvas_height (createSplashParticles rnd g x y) = canvas_height g"
  "groundHeight (createSplashParticles rnd g x y) = groundHeight g"
  by (simp_all add: createSplashParticles_def Let_def)

lemma csp_splashes:
  "splashes (createSplashParticles rnd g x y) =
     (let pushed = splashes g @ newParticles rnd (cursor g + 1) x y (nat (3 + \<lfloor>rnd (cursor g) * 4\<rfloor>))
      in if length pushed > 200 then drop (length pushed - 150) pushed else pushed)"
  by (simp add: createSplashParticles_def Let_def)

lemma cap_length:
  "length (if length xs > 200 then drop (length xs - 150) xs else xs) \<le> 200"
  by simp

lemma cap_append:
  assumes "length new \<le> 150"
  shows "(if length (old @ new) > 200 then drop (length (old @ new) - 150) (old @ new)
          else old @ new) =
         drop (if length (old @ new) > 200 then length (old @ new) - 150 else 0) old @ new"
  using assms by simp

lemma csp_length_le: "length (splashes (createSplashParticles rnd g x y)) \<le> 200"
  unfolding csp_splashes Let_def by (rule cap_length)

lemma csp_puddles_upd:
  "createSplashParticles rnd (g\<lparr>puddles := ps\<rparr>) x y = (createSplashParticles rnd g x y)\<lparr>puddles := ps\<rparr>"
  by (simp add: createSplashParticles_def Let_def)

lemma hitsPuddle_spec: "hitsPuddle (getGroundY g) x y p \<longleftrightarrow> spec_hit g x y p"
  by (auto simp: hitsPuddle_def spec_hit_def spec_in_span_def Let_def)

lemma puddleLoop_no_hit:
  "\<forall>p \<in> set rest. \<not> hitsPuddle (getGroundY g) x y p \<Longrightarrow>
   puddleLoop rnd g x y visited rest = (g, False)"
  by (induction rest arbitrary: visited) simp_all

lemma puddleLoop_hit:
  "\<forall>q \<in> set r1. \<not> hitsPuddle (getGroundY g) x y q \<Longrightarrow> hitsPuddle (getGroundY g) x y p \<Longrightarrow>
   puddleLoop rnd g x y visited (r1 @ p # r2) =
     (createSplashParticles rnd (g\<lparr>puddles := visited @ r1 @ addRipple g p x y # r2\<rparr>) x y, True)"
  by (induction r1 arbitrary: visited) simp_all

lemma addSplash_above: "y \<le> getGroundY g \<Longrightarrow> addSplash rnd g x y = g"
proof -
  assume a: "y \<le> getGroundY g"
  then have "\<forall>p \<in> set (puddles g). \<not> hitsPuddle (getGroundY g) x y p"
    by (auto simp: hitsPuddle_def Let_def)
  from puddleLoop_no_hit[OF this] a show ?thesis
    by (simp add: addSplash_def Let_def)
qed

lemma addSplash_dry:
  assumes "getGroundY g < y" "\<forall>p \<in> set (puddles g). \<not> hitsPuddle (getGroundY g) x y p"
  shows "addSplash rnd g x y = createSplashParticles rnd g x y"
  using puddleLoop_no_hit[OF assms(2)] assms(1) by (simp add: addSplash_def Let_def)

lemma addSplash_hit:
  assumes "puddles g = r1 @ p # r2" "\<forall>q \<in> set r1. \<not> hitsPuddle (getGroundY g) x y q"
    "hitsPuddle (getGroundY g) x y p"
  shows "addSplash rnd g x y =
           (createSplashParticles rnd g x y)\<lparr>puddles := r1 @ addRipple g p x y # r2\<rparr>"
  using puddleLoop_hit[OF assms(2,3), of rnd "[]" r2] assms(1)
  by (simp add: addSplash_def Let_def csp_puddles_upd)

lemma addSplash_cases:
  "addSplash rnd g x y = g \<or>
   addSplash rnd g x y = createSplashParticles rnd g x y \<or>
   (\<exists>r1 p r2. puddles g = r1 @ p # r2 \<and>
      addSplash rnd g x y =
        (createSplashParticles rnd g x y)\<lparr>puddles := r1 @ addRipple g p x y # r2\<rparr>)"
proof (cases "\<exists>p \<in> set (puddles g). hitsPuddle (getGroundY g) x y p")
  case True
  then obtain r1 p r2 where "puddles g = r1 @ p # r2" "hitsPuddle (getGroundY g) x y p"
    "\<forall>q \<in> set r1. \<not> hitsPuddle (getGroundY g) x y q"
    using split_list_first_prop[of "puddles g" "hitsPuddle (getGroundY g) x y"] by blast
  then show ?thesis using addSplash_hit by blast
next
  case False
  then show ?thesis
    using addSplash_dry[of g y x rnd] addSplash_above[of y g rnd x] by (cases "getGroundY g < y") auto
qed

lemma addSplash_splashes:
  "getGroundY g < y \<Longrightarrow> splashes (addSplash rnd g x y) = splashes (createSplashParticles rnd g x y)"
proof (cases "\<exists>p \<in> set (puddles g). hitsPuddle (getGroundY g) x y p")
  case True
  then obtain r1 p r2 where "puddles g = r1 @ p # r2" "hitsPuddle (getGroundY g) x y p"
    "\<forall>q \<in> set r1. \<not> hitsPuddle (getGroundY g) x y q"
    using split_list_first_prop[of "puddles g" "hitsPuddle (getGroundY g) x y"] by blast
  then show ?thesis using addSplash_hit[of g r1 p r2 x y rnd] by simp
next
  case False
  assume "getGroundY g < y"
  with False show ?thesis using addSplash_dry[of g y x rnd] by simp
qed

lemma addSplash_length_le:
  "length (splashes g) \<le> 200 \<Longrightarrow> length (splashes (addSplash rnd g x y)) \<le> 200"
  using addSplash_cases[of rnd g x y] csp_length_le[of rnd g x y] by auto

text \<open>The pool after particles are pushed: the new ones at the end, old ones dropped from the front.\<close>

lemma csp_spawn:
  assumes "valid_random rnd"
  shows "\<exists>n new. 3 \<le> length new \<and> length new \<le> 6 \<and>
           (\<forall>s \<in> set new. sp_y s = y \<and> sp_impactY s = y \<and> sp_life s = 1) \<and>
           splashes (createSplashParticles rnd g x y) = drop n (splashes g) @ new"
proof -
  define new where "new = newParticles rnd (cursor g + 1) x y (nat (3 + \<lfloor>rnd (cursor g) * 4\<rfloor>))"
  have len: "3 \<le> length new" "length new \<le> 6"
    using particleCount_range[OF assms, of "cursor g"] by (simp_all add: new_def length_newParticles)
  have f: "\<forall>s \<in> set new. sp_y s = y \<and> sp_impactY s = y \<and> sp_life s = 1"
    using newParticles_fields by (auto simp: new_def)
  have "length new \<le> 150" using len by simp
  from cap_append[OF this, of "splashes g"]
  have "splashes (createSplashParticles rnd g x y) =
          drop (if length (splashes g @ new) > 200 then length (splashes g @ new) - 150 else 0) (splashes g) @ new"
    unfolding csp_splashes Let_def new_def .
  with len f show ?thesis by blast
qed


lemma newParticles_maxLife:
  assumes "valid_random rnd"
  shows "s \<in> set (newParticles rnd k x y n) \<Longrightarrow> 0.3 \<le> sp_maxLife s \<and> sp_maxLife s < 0.7"
proof (induction n arbitrary: k)
  case 0
  then show ?case by simp
next
  case (Suc n)
  from valid_randomD[OF assms, of "k + 3"]
  have "0.3 \<le> 0.3 + rnd (k + 3) * 0.4 \<and> 0.3 + rnd (k + 3) * 0.4 < (0.7::real)"
    by simp
  with Suc show ?case by auto
qed

lemma csp_maxLife:
  assumes "valid_random rnd"
    and "\<forall>s \<in> set (splashes g). 0.3 \<le> sp_maxLife s \<and> sp_maxLife s < 0.7"
  shows "\<forall>s \<in> set (splashes (createSplashParticles rnd g x y)).
           0.3 \<le> sp_maxLife s \<and> sp_maxLife s < 0.7"
proof
  fix s assume "s \<in> set (splashes (createSplashParticles rnd g x y))"
  then have "s \<in> set (splashes g @ newParticles rnd (cursor g + 1) x y (nat (3 + \<lfloor>rnd (cursor g) * 4\<rfloor>)))"
    unfolding csp_splashes Let_def by (auto split: if_splits dest: in_set_dropD)
  then show "0.3 \<le> sp_maxLife s \<and> sp_maxLife s < 0.7"
    using assms(2) newParticles_maxLife[OF assms(1)] by auto
qed

lemma addRipple_ripples:
  "\<exists>r. rp_x r = x - (pd_x p + pd_width p / 2) \<and> rp_radius r = 0 \<and> rp_opacity r = 1 \<and>
        rp_time r = 0 \<and>
        addRipple g p x y =
          p\<lparr>pd_ripples := (if 6 \<le> length (pd_ripples p) then tl (pd_ripples p @ [r])
                            else pd_ripples p @ [r])\<rparr>"
  by (rule exI[of _ "\<lparr>rp_x = x - (pd_x p + pd_width p / 2), rp_y = 0, rp_radius = 0,
        rp_opacity = 1,
        rp_maxRadius = min (min (pd_width p * 0.4) (pd_height p * 0.4))
                           ((pd_width p + pd_height p) / 2 * 0.6),
        rp_time = 0\<rparr>"])
     (simp add: addRipple_def Let_def)

lemma addRipple_consistent:
  assumes "\<forall>r \<in> set (pd_ripples p). ripple_consistent r"
  shows "\<forall>r \<in> set (pd_ripples (addRipple g p x y)). ripple_consistent r"
proof -
  obtain r where r: "rp_radius r = 0" "rp_opacity r = 1" "rp_time r = 0"
    and e: "addRipple g p x y =
          p\<lparr>pd_ripples := (if 6 \<le> length (pd_ripples p) then tl (pd_ripples p @ [r])
                            else pd_ripples p @ [r])\<rparr>"
    using addRipple_ripples[of x p g y] by blast
  have c: "ripple_consistent r" using r by (simp add: ripple_consistent_def)
  have "set (pd_ripples (addRipple g p x y)) \<subseteq> set (pd_ripples p @ [r])"
    unfolding e using list.set_sel(2)[of "pd_ripples p @ [r]"] by auto
  with assms c show ?thesis by auto
qed

lemma rippleStep_consistent:
  assumes "ripple_consistent r" "0 \<le> dt"
  shows "ripple_consistent (rippleStep dt r)"
  using assms by (simp add: ripple_consistent_def rippleStep_def Let_def)

lemma rippleStep_monotone:
  assumes "ripple_consistent r" "0 \<le> dt"
  shows "rp_radius r \<le> rp_radius (rippleStep dt r)"
    and "rp_opacity (rippleStep dt r) \<le> rp_opacity r"
    and "rp_maxRadius (rippleStep dt r) = rp_maxRadius r"
proof -
  have t: "rp_time (rippleStep dt r) = rp_time r + dt * 0.001"
    "rp_radius (rippleStep dt r) = (rp_time r + dt * 0.001) * 20"
    "rp_opacity (rippleStep dt r) = max 0 (1 - (rp_time r + dt * 0.001) * 1.2)"
    by (simp_all add: rippleStep_def Let_def)
  have r: "rp_radius r = rp_time r * 20" "rp_opacity r = max 0 (1 - rp_time r * 1.2)"
    using assms(1) by (simp_all add: ripple_consistent_def)
  show "rp_radius r \<le> rp_radius (rippleStep dt r)"
    unfolding t r using assms(2) by simp
  have "1 - (rp_time r + dt * 0.001) * 1.2 \<le> 1 - rp_time r * 1.2"
    using assms(2) by (simp add: field_simps)
  then show "rp_opacity (rippleStep dt r) \<le> rp_opacity r"
    unfolding t r by (rule max.mono[OF order_refl])
  show "rp_maxRadius (rippleStep dt r) = rp_maxRadius r"
    by (simp add: rippleStep_def Let_def)
qed

lemma updatePuddle_consistent:
  assumes "\<forall>r \<in> set (pd_ripples p). ripple_consistent r" "0 \<le> dt"
  shows "\<forall>r \<in> set (pd_ripples (updatePuddle dt p)). ripple_consistent r"
  using assms by (auto simp: updatePuddle_def rippleStep_consistent)

lemma splashStep_fields:
  "sp_maxLife (splashStep dt s) = sp_maxLife s"
  "sp_impactY (splashStep dt s) = sp_impactY s"
  "sp_y (splashStep dt s) = sp_y s + sp_velocityY s * dt * 0.001"
  "sp_life (splashStep dt s) = sp_life s - (dt * 0.001) / sp_maxLife s"
  by (simp_all add: splashStep_def Let_def)

lemma createPuddles_fields:
  "splashes (createPuddles rnd g) = splashes g"
  "\<forall>p \<in> set (puddles (createPuddles rnd g)). pd_ripples p = []"
  by (simp_all add: createPuddles_def clampPuddle_def Let_def)

lemma ground_inv_new: "ground_inv (Ground_new rnd k w h)"
  using createPuddles_fields(2)[of rnd]
  by (simp add: ground_inv_def Ground_new_def createPuddles_fields(1))

lemma ground_inv_resize:
  assumes "ground_inv g"
  shows "ground_inv (onCanvasResize rnd (g\<lparr>canvas_width := w, canvas_height := h\<rparr>))"
  using assms createPuddles_fields(2)[of rnd]
  by (simp add: ground_inv_def onCanvasResize_def createPuddles_fields(1))

lemma ground_inv_update:
  assumes "ground_inv g" "0 \<le> dt"
  shows "ground_inv (Ground_update g dt)"
proof -
  have 1: "length (splashes (Ground_update g dt)) \<le> 200"
  proof -
    have "length (filter splashKept (map (splashStep dt) (splashes g))) \<le> length (splashes g)"
      using length_filter_le[of splashKept "map (splashStep dt) (splashes g)"] by simp
    moreover have "length (splashes g) \<le> 200" using assms(1) by (simp add: ground_inv_def)
    ultimately have "length (filter splashKept (map (splashStep dt) (splashes g))) \<le> 200"
      by (rule order_trans)
    then show ?thesis unfolding Ground_update_def by simp
  qed
  have 2: "\<forall>s \<in> set (splashes (Ground_update g dt)). 0.3 \<le> sp_maxLife s \<and> sp_maxLife s < 0.7"
    using assms(1) by (auto simp: Ground_update_def ground_inv_def splashStep_fields)
  have 3: "\<forall>p \<in> set (puddles (Ground_update g dt)). \<forall>r \<in> set (pd_ripples p). ripple_consistent r"
  proof
    fix p assume "p \<in> set (puddles (Ground_update g dt))"
    then obtain q where q: "q \<in> set (puddles g)" "p = updatePuddle dt q"
      by (auto simp: Ground_update_def)
    then have "\<forall>r \<in> set (pd_ripples q). ripple_consistent r"
      using assms(1) by (simp add: ground_inv_def)
    from updatePuddle_consistent[OF this assms(2)] q(2)
    show "\<forall>r \<in> set (pd_ripples p). ripple_consistent r" by simp
  qed
  from 1 2 3 show ?thesis by (simp add: ground_inv_def)
qed

lemma ground_inv_csp:
  assumes "valid_random rnd" "ground_inv g"
  shows "ground_inv (createSplashParticles rnd g x y)"
  using assms csp_length_le[of rnd g x y] csp_maxLife[OF assms(1), of g x y]
  by (simp add: ground_inv_def csp_fields)

lemma ground_inv_addSplash:
  assumes "valid_random rnd" "ground_inv g"
  shows "ground_inv (addSplash rnd g x y)"
proof -
  note c = ground_inv_csp[OF assms, of x y]
  consider "addSplash rnd g x y = g" | "addSplash rnd g x y = createSplashParticles rnd g x y"
    | r1 p r2 where "puddles g = r1 @ p # r2"
      "addSplash rnd g x y =
        (createSplashParticles rnd g x y)\<lparr>puddles := r1 @ addRipple g p x y # r2\<rparr>"
    using addSplash_cases[of rnd g x y] by blast
  then show ?thesis
  proof cases
    case 1
    then show ?thesis using assms(2) by simp
  next
    case 2
    then show ?thesis using c by simp
  next
    case 3
    have a: "\<forall>q \<in> set (puddles g). \<forall>r \<in> set (pd_ripples q). ripple_consistent r"
      using assms(2) by (simp add: ground_inv_def)
    then have "\<forall>r \<in> set (pd_ripples p). ripple_consistent r"
      using 3(1) by simp
    from addRipple_consistent[OF this, of g x y] a 3(1)
    have "\<forall>q \<in> set (r1 @ addRipple g p x y # r2). \<forall>r \<in> set (pd_ripples q). ripple_consistent r"
      by auto
    then show ?thesis using c unfolding 3(2) by (simp add: ground_inv_def)
  qed
qed

lemma reachable_ground_inv:
  assumes "valid_random rnd" "reachable_ground rnd g"
  shows "ground_inv g"
  using assms(2)
proof (induction rule: reachable_ground.induct)
  case (ground_new k canvasWidth canvasHeight)
  show ?case by (rule ground_inv_new)
next
  case (ground_splash g x y)
  then show ?case by (simp add: ground_inv_addSplash[OF assms(1)])
next
  case (ground_update g deltaTime)
  then show ?case by (simp add: ground_inv_update)
next
  case (ground_resize g w h)
  then show ?case by (simp add: ground_inv_resize)
next
  case (ground_draws g n)
  then show ?case by (simp add: ground_inv_def)
qed

text \<open>
  C1: the outcome of \<open>addSplash(x, y)\<close> on the ground with puddles.
  \<^item> With \<open>y\<close> at or above the ground line nothing changes.
  \<^item> With \<open>y\<close> below the ground line, between 3 and 6 particles are pushed at the end
    of the pool, each at the impact height with full life (the pool may lose old
    particles at its front, by the cap).
  \<^item> When no puddle matches (\<open>x\<close> in one of its spans and
    \<open>groundY < y \<le> groundY + height + 5\<close>), no puddle changes; this covers the empty
    puddle list.
  \<^item> When puddle \<open>i\<close> is the first that matches, it alone changes: one new ripple, of
    radius 0, opacity 1 and offset \<open>x\<close> minus the puddle's centre, is pushed on its
    ripples (the oldest leaves when there were six already).
\<close>

theorem addSplash_resolution:
  assumes "valid_random rnd"
  shows "(y \<le> getGroundY g \<longrightarrow> addSplash rnd g x y = g)
    \<and> (getGroundY g < y \<longrightarrow>
         (\<exists>n new. 3 \<le> length new \<and> length new \<le> 6 \<and>
            (\<forall>s \<in> set new. sp_y s = y \<and> sp_impactY s = y \<and> sp_life s = 1) \<and>
            splashes (addSplash rnd g x y) = drop n (splashes g) @ new))
    \<and> ((\<forall>p \<in> set (puddles g). \<not> spec_hit g x y p) \<longrightarrow>
         puddles (addSplash rnd g x y) = puddles g)
    \<and> (\<forall>i < length (puddles g).
         spec_hit g x y (puddles g ! i) \<and> (\<forall>j < i. \<not> spec_hit g x y (puddles g ! j)) \<longrightarrow>
         (\<exists>r. rp_x r = x - (pd_x (puddles g ! i) + pd_width (puddles g ! i) / 2) \<and>
              rp_radius r = 0 \<and> rp_opacity r = 1 \<and> rp_time r = 0 \<and>
              puddles (addSplash rnd g x y) =
                (puddles g)[i := (puddles g ! i)
                   \<lparr>pd_ripples :=
                      (if 6 \<le> length (pd_ripples (puddles g ! i))
                       then tl (pd_ripples (puddles g ! i) @ [r])
                       else pd_ripples (puddles g ! i) @ [r])\<rparr>]))"
proof (intro conjI impI allI)
  assume "y \<le> getGroundY g"
  then show "addSplash rnd g x y = g" by (rule addSplash_above)
next
  assume "getGroundY g < y"
  then show "\<exists>n new. 3 \<le> length new \<and> length new \<le> 6 \<and>
            (\<forall>s \<in> set new. sp_y s = y \<and> sp_impactY s = y \<and> sp_life s = 1) \<and>
            splashes (addSplash rnd g x y) = drop n (splashes g) @ new"
    using csp_spawn[OF assms, of y g x] by (simp add: addSplash_splashes)
next
  assume a: "\<forall>p \<in> set (puddles g). \<not> spec_hit g x y p"
  then have n: "\<forall>p \<in> set (puddles g). \<not> hitsPuddle (getGroundY g) x y p"
    by (simp add: hitsPuddle_spec)
  show "puddles (addSplash rnd g x y) = puddles g"
  proof (cases "getGroundY g < y")
    case True
    then show ?thesis using addSplash_dry[OF True n] by (simp add: csp_fields)
  next
    case False
    then show ?thesis using addSplash_above[of y g rnd x] by simp
  qed
next
  fix i
  assume i: "i < length (puddles g)"
    and h: "spec_hit g x y (puddles g ! i) \<and> (\<forall>j < i. \<not> spec_hit g x y (puddles g ! j))"
  let ?p = "puddles g ! i"
  have split: "puddles g = take i (puddles g) @ ?p # drop (Suc i) (puddles g)"
    using i by (rule id_take_nth_drop)
  have before: "\<forall>q \<in> set (take i (puddles g)). \<not> hitsPuddle (getGroundY g) x y q"
  proof
    fix q assume "q \<in> set (take i (puddles g))"
    then obtain j where "j < i" "q = puddles g ! j"
      using i by (auto simp: in_set_conv_nth)
    with h show "\<not> hitsPuddle (getGroundY g) x y q" by (simp add: hitsPuddle_spec)
  qed
  have hit: "hitsPuddle (getGroundY g) x y ?p" using h by (simp add: hitsPuddle_spec)
  have "puddles (addSplash rnd g x y) =
          take i (puddles g) @ addRipple g ?p x y # drop (Suc i) (puddles g)"
    using addSplash_hit[OF split before hit, of rnd] by simp
  also have "\<dots> = (puddles g)[i := addRipple g ?p x y]"
    using i by (simp add: upd_conv_take_nth_drop)
  finally have e: "puddles (addSplash rnd g x y) = (puddles g)[i := addRipple g ?p x y]" .
  from addRipple_ripples[of x ?p g y] e
  show "\<exists>r. rp_x r = x - (pd_x ?p + pd_width ?p / 2) \<and>
              rp_radius r = 0 \<and> rp_opacity r = 1 \<and> rp_time r = 0 \<and>
              puddles (addSplash rnd g x y) =
                (puddles g)[i := ?p
                   \<lparr>pd_ripples :=
                      (if 6 \<le> length (pd_ripples ?p)
                       then tl (pd_ripples ?p @ [r])
                       else pd_ripples ?p @ [r])\<rparr>]"
    by metis
qed

text \<open>The example ground, evaluated.\<close>

lemma example_ground_eval:
  "getGroundY example_ground = 520"
  "splashes example_ground = []"
  "puddles example_ground =
     [\<lparr>pd_x = 90, pd_width = 140, pd_height = 25, pd_ripples = [], isCompound = False,
       smallerWidth = 0, smallerHeight = 0, overlapOffset = 0\<rparr>,
      \<lparr>pd_x = 275, pd_width = 250, pd_height = 85 / 2, pd_ripples = [], isCompound = True,
       smallerWidth = 95, smallerHeight = 24, overlapOffset = 175\<rparr>,
      \<lparr>pd_x = 1215 / 2, pd_width = 65, pd_height = 15, pd_ripples = [], isCompound = False,
       smallerWidth = 0, smallerHeight = 0, overlapOffset = 0\<rparr>]"
  by (simp_all add: example_ground_def Ground_new_def createPuddles_def clampPuddle_def
      getGroundY_def const_draws_def Let_def)


lemma example_ground_hits:
  "\<not> spec_hit example_ground 5 521 (puddles example_ground ! 0)"
  "\<not> spec_hit example_ground 5 521 (puddles example_ground ! 1)"
  "\<not> spec_hit example_ground 5 521 (puddles example_ground ! 2)"
  "\<not> spec_hit example_ground 540 521 (puddles example_ground ! 0)"
  "spec_hit example_ground 540 521 (puddles example_ground ! 1)"
  by (simp_all add: example_ground_eval spec_hit_def spec_in_span_def)

theorem addSplash_resolution_witness:
  "valid_random (const_draws (1/2))
   \<and> 500 \<le> getGroundY example_ground
   \<and> addSplash (const_draws (1/2)) example_ground 100 500 = example_ground
   \<and> getGroundY example_ground < 521
   \<and> length (puddles example_ground) = 3
   \<and> \<not> spec_hit example_ground 5 521 (puddles example_ground ! 0)
   \<and> \<not> spec_hit example_ground 5 521 (puddles example_ground ! 1)
   \<and> \<not> spec_hit example_ground 5 521 (puddles example_ground ! 2)
   \<and> puddles (addSplash (const_draws (1/2)) example_ground 5 521) = puddles example_ground
   \<and> 3 \<le> length (splashes (addSplash (const_draws (1/2)) example_ground 5 521))
   \<and> length (splashes (addSplash (const_draws (1/2)) example_ground 5 521)) \<le> 6
   \<and> spec_hit example_ground 540 521 (puddles example_ground ! 1)
   \<and> \<not> spec_hit example_ground 540 521 (puddles example_ground ! 0)
   \<and> length (pd_ripples (puddles (addSplash (const_draws (1/2)) example_ground 540 521) ! 1)) = 1
   \<and> puddles (addSplash (const_draws (1/2)) example_ground 540 521) ! 0 = puddles example_ground ! 0
   \<and> puddles (addSplash (const_draws (1/2)) example_ground 540 521) ! 2 = puddles example_ground ! 2
   \<and> getGroundY (example_ground\<lparr>puddles := []\<rparr>) < 521
   \<and> puddles (addSplash (const_draws (1/2)) (example_ground\<lparr>puddles := []\<rparr>) 100 521) = []
   \<and> 3 \<le> length (splashes
               (addSplash (const_draws (1/2)) (example_ground\<lparr>puddles := []\<rparr>) 100 521))
   \<and> length (splashes
             (addSplash (const_draws (1/2)) (example_ground\<lparr>puddles := []\<rparr>) 100 521)) \<le> 6"
proof -
  let ?rnd = "const_draws (1/2)"
  have v: "valid_random ?rnd" by (simp add: valid_const_draws)
  have gy: "getGroundY example_ground = 520" by (rule example_ground_eval(1))
  have len: "length (puddles example_ground) = 3" by (simp add: example_ground_eval(3))
  have one: "1 < length (puddles example_ground)" using len by simp
  have above: "addSplash ?rnd example_ground 100 500 = example_ground"
    using addSplash_resolution[OF v, of 500 example_ground 100] gy by simp
  have none: "\<forall>p \<in> set (puddles example_ground). \<not> spec_hit example_ground 5 521 p"
  proof
    fix p assume "p \<in> set (puddles example_ground)"
    then obtain i where "i < 3" "p = puddles example_ground ! i"
      using len by (auto simp: in_set_conv_nth)
    then have "i = 0 \<or> i = 1 \<or> i = 2" by auto
    with \<open>p = puddles example_ground ! i\<close> example_ground_hits(1-3)
    show "\<not> spec_hit example_ground 5 521 p" by auto
  qed
  note dry = addSplash_resolution[OF v, of 521 example_ground 5]
  have dry_p: "puddles (addSplash ?rnd example_ground 5 521) = puddles example_ground"
    using dry none by blast
  obtain n new where new: "3 \<le> length new" "length new \<le> 6"
    "splashes (addSplash ?rnd example_ground 5 521) = drop n (splashes example_ground) @ new"
    using dry gy by auto
  have dry_s: "3 \<le> length (splashes (addSplash ?rnd example_ground 5 521))"
    "length (splashes (addSplash ?rnd example_ground 5 521)) \<le> 6"
    using new by (simp_all add: example_ground_eval(2))
  have first: "\<forall>j < 1. \<not> spec_hit example_ground 540 521 (puddles example_ground ! j)"
    using example_ground_hits(4) by simp
  note hit = addSplash_resolution[OF v, of 521 example_ground 540]
  from hit have "\<forall>i < length (puddles example_ground).
         spec_hit example_ground 540 521 (puddles example_ground ! i) \<and>
         (\<forall>j < i. \<not> spec_hit example_ground 540 521 (puddles example_ground ! j)) \<longrightarrow>
         (\<exists>r. puddles (addSplash ?rnd example_ground 540 521) =
                (puddles example_ground)[i := (puddles example_ground ! i)
                   \<lparr>pd_ripples :=
                      (if 6 \<le> length (pd_ripples (puddles example_ground ! i))
                       then tl (pd_ripples (puddles example_ground ! i) @ [r])
                       else pd_ripples (puddles example_ground ! i) @ [r])\<rparr>])"
    by blast
  then have "\<exists>r. puddles (addSplash ?rnd example_ground 540 521) =
                (puddles example_ground)[1 := (puddles example_ground ! 1)
                   \<lparr>pd_ripples :=
                      (if 6 \<le> length (pd_ripples (puddles example_ground ! 1))
                       then tl (pd_ripples (puddles example_ground ! 1) @ [r])
                       else pd_ripples (puddles example_ground ! 1) @ [r])\<rparr>]"
    using one conjI[OF example_ground_hits(5) first] by blast
  then obtain r where r: "puddles (addSplash ?rnd example_ground 540 521) =
                (puddles example_ground)[1 := (puddles example_ground ! 1)
                   \<lparr>pd_ripples :=
                      (if 6 \<le> length (pd_ripples (puddles example_ground ! 1))
                       then tl (pd_ripples (puddles example_ground ! 1) @ [r])
                       else pd_ripples (puddles example_ground ! 1) @ [r])\<rparr>]"
    by blast
  have hit_p: "length (pd_ripples (puddles (addSplash ?rnd example_ground 540 521) ! 1)) = 1"
    "puddles (addSplash ?rnd example_ground 540 521) ! 0 = puddles example_ground ! 0"
    "puddles (addSplash ?rnd example_ground 540 521) ! 2 = puddles example_ground ! 2"
    unfolding r by (simp_all add: example_ground_eval(3))
  let ?e = "example_ground\<lparr>puddles := []\<rparr>"
  have ey: "getGroundY ?e < 521" using example_ground_eval(1) by (simp add: getGroundY_def)
  note empty = addSplash_resolution[OF v, of 521 ?e 100]
  have empty_p: "puddles (addSplash ?rnd ?e 100 521) = []"
    using empty by simp
  obtain m fresh where fresh: "3 \<le> length fresh" "length fresh \<le> 6"
    "splashes (addSplash ?rnd ?e 100 521) = drop m (splashes ?e) @ fresh"
    using empty ey by auto
  have empty_s: "3 \<le> length (splashes (addSplash ?rnd ?e 100 521))"
    "length (splashes (addSplash ?rnd ?e 100 521)) \<le> 6"
    using fresh by (simp_all add: example_ground_eval(2))
  show ?thesis
    using v gy above len example_ground_hits dry_p dry_s hit_p ey empty_p empty_s by simp
qed

lemma example_dry_eval:
  "splashes example_dry = replicate 5 example_splash"
  "puddles example_dry = puddles example_ground"
proof -
  have n: "\<forall>p \<in> set (puddles example_ground). \<not> hitsPuddle (getGroundY example_ground) 5 521 p"
    by (simp add: example_ground_eval hitsPuddle_def)
  have g: "getGroundY example_ground < 521" by (simp add: example_ground_eval)
  have c: "nat (3 + \<lfloor>const_draws (1/2) (cursor example_ground) * 4\<rfloor>) = 5"
    by (simp add: const_draws_def)
  have e: "example_dry = createSplashParticles (const_draws (1/2)) example_ground 5 521"
    unfolding example_dry_def by (rule addSplash_dry[OF g n])
  show "splashes example_dry = replicate 5 example_splash"
    unfolding e csp_splashes Let_def c
    by (simp add: example_ground_eval eval_nat_numeral example_splash_def const_draws_def)
  show "puddles example_dry = puddles example_ground"
    unfolding e by (rule csp_fields)
qed

lemma example_wet_eval:
  "pd_ripples (puddles example_wet ! 1) = [example_ripple]"
  "length (puddles example_wet) = 3"
  unfolding example_wet_def
  by (simp_all add: addSplash_def example_ground_eval hitsPuddle_def Let_def addRipple_def
      csp_fields example_ripple_def)


lemma example_reachable:
  "reachable_ground (const_draws (1/2)) example_ground"
  "reachable_ground (const_draws (1/2)) example_dry"
  "reachable_ground (const_draws (1/2)) example_wet"
  unfolding example_dry_def example_wet_def example_ground_def
  by (intro ground_splash ground_new)+

lemma simple_length_newParticles: "length (simple_newParticles rnd k x y n) = n"
  by (induction n arbitrary: k) simp_all

lemma simple_splashes:
  "sg_splashes (simple_addSplash rnd sg x y) =
     (let pushed = sg_splashes sg @
            simple_newParticles rnd (sg_cursor sg + 1) x y (nat (3 + \<lfloor>rnd (sg_cursor sg) * 4\<rfloor>))
      in if length pushed > 200 then drop (length pushed - 150) pushed else pushed)"
  by (simp add: simple_addSplash_def Let_def)

lemma cap_cases:
  "(length xs \<le> 200 \<longrightarrow> (if length xs > 200 then drop (length xs - 150) xs else xs) = xs) \<and>
   (200 < length xs \<longrightarrow>
      (if length xs > 200 then drop (length xs - 150) xs else xs) = drop (length xs - 150) xs \<and>
      length (if length xs > 200 then drop (length xs - 150) xs else xs) = 150)"
  by simp

text \<open>
  C6: the pool of a reachable ground has at most 200 particles, also right after
  \<open>addSplash\<close>.  An impact below the ground line pushes between 3 and 6 particles; when
  that makes more than 200, the pool becomes the last 150 of them, and otherwise all
  are kept.  The same holds of \<open>addSplash\<close> of the ground without puddles, on any state.
\<close>

theorem splash_pool_capped:
  assumes "valid_random rnd"
  shows "(reachable_ground rnd g \<longrightarrow>
            length (splashes g) \<le> 200 \<and> length (splashes (addSplash rnd g x y)) \<le> 200)
    \<and> (getGroundY g < y \<longrightarrow>
         length (splashes (addSplash rnd g x y)) \<le> 200 \<and>
         (\<exists>new. 3 \<le> length new \<and> length new \<le> 6 \<and>
            (length (splashes g @ new) \<le> 200 \<longrightarrow>
               splashes (addSplash rnd g x y) = splashes g @ new) \<and>
            (200 < length (splashes g @ new) \<longrightarrow>
               splashes (addSplash rnd g x y) =
                 drop (length (splashes g @ new) - 150) (splashes g @ new) \<and>
               length (splashes (addSplash rnd g x y)) = 150)))
    \<and> length (sg_splashes (simple_addSplash rnd sg x y)) \<le> 200
    \<and> (\<exists>new. 3 \<le> length new \<and> length new \<le> 6 \<and>
          (length (sg_splashes sg @ new) \<le> 200 \<longrightarrow>
             sg_splashes (simple_addSplash rnd sg x y) = sg_splashes sg @ new) \<and>
          (200 < length (sg_splashes sg @ new) \<longrightarrow>
             sg_splashes (simple_addSplash rnd sg x y) =
               drop (length (sg_splashes sg @ new) - 150) (sg_splashes sg @ new) \<and>
             length (sg_splashes (simple_addSplash rnd sg x y)) = 150))"
proof (intro conjI impI)
  assume r: "reachable_ground rnd g"
  from reachable_ground_inv[OF assms r]
  show "length (splashes g) \<le> 200" by (simp add: ground_inv_def)
  then show "length (splashes (addSplash rnd g x y)) \<le> 200" by (rule addSplash_length_le)
next
  assume b: "getGroundY g < y"
  show "length (splashes (addSplash rnd g x y)) \<le> 200"
    unfolding addSplash_splashes[OF b] by (rule csp_length_le)
  define new where "new = newParticles rnd (cursor g + 1) x y (nat (3 + \<lfloor>rnd (cursor g) * 4\<rfloor>))"
  have len: "3 \<le> length new \<and> length new \<le> 6"
    using particleCount_range[OF assms, of "cursor g"] by (simp add: new_def length_newParticles)
  have e: "splashes (addSplash rnd g x y) =
             (if length (splashes g @ new) > 200
              then drop (length (splashes g @ new) - 150) (splashes g @ new)
              else splashes g @ new)"
    unfolding addSplash_splashes[OF b] csp_splashes Let_def new_def ..
  show "\<exists>new. 3 \<le> length new \<and> length new \<le> 6 \<and>
            (length (splashes g @ new) \<le> 200 \<longrightarrow>
               splashes (addSplash rnd g x y) = splashes g @ new) \<and>
            (200 < length (splashes g @ new) \<longrightarrow>
               splashes (addSplash rnd g x y) =
                 drop (length (splashes g @ new) - 150) (splashes g @ new) \<and>
               length (splashes (addSplash rnd g x y)) = 150)"
    using len cap_cases[of "splashes g @ new"] unfolding e by blast
next
  show "length (sg_splashes (simple_addSplash rnd sg x y)) \<le> 200"
    unfolding simple_splashes Let_def by (rule cap_length)
next
  define new where
    "new = simple_newParticles rnd (sg_cursor sg + 1) x y (nat (3 + \<lfloor>rnd (sg_cursor sg) * 4\<rfloor>))"
  have len: "3 \<le> length new \<and> length new \<le> 6"
    using particleCount_range[OF assms, of "sg_cursor sg"]
    by (simp add: new_def simple_length_newParticles)
  have e: "sg_splashes (simple_addSplash rnd sg x y) =
             (if length (sg_splashes sg @ new) > 200
              then drop (length (sg_splashes sg @ new) - 150) (sg_splashes sg @ new)
              else sg_splashes sg @ new)"
    unfolding simple_splashes Let_def new_def ..
  show "\<exists>new. 3 \<le> length new \<and> length new \<le> 6 \<and>
          (length (sg_splashes sg @ new) \<le> 200 \<longrightarrow>
             sg_splashes (simple_addSplash rnd sg x y) = sg_splashes sg @ new) \<and>
          (200 < length (sg_splashes sg @ new) \<longrightarrow>
             sg_splashes (simple_addSplash rnd sg x y) =
               drop (length (sg_splashes sg @ new) - 150) (sg_splashes sg @ new) \<and>
             length (sg_splashes (simple_addSplash rnd sg x y)) = 150)"
    using len cap_cases[of "sg_splashes sg @ new"] unfolding e by blast
qed

theorem splash_pool_capped_witness:
  "valid_random (const_draws (1/2))
   \<and> reachable_ground (const_draws (1/2)) example_dry
   \<and> length (splashes (addSplash (const_draws (1/2)) example_dry 5 521)) \<le> 200
   \<and> getGroundY (example_ground\<lparr>splashes := replicate 198 example_splash\<rparr>) < 521
   \<and> length (splashes (addSplash (const_draws (1/2))
               (example_ground\<lparr>splashes := replicate 198 example_splash\<rparr>) 5 521)) = 150"
proof -
  let ?rnd = "const_draws (1/2)"
  let ?g = "example_ground\<lparr>splashes := replicate 198 example_splash\<rparr>"
  have v: "valid_random ?rnd" by (simp add: valid_const_draws)
  have a: "length (splashes (addSplash ?rnd example_dry 5 521)) \<le> 200"
    using splash_pool_capped[OF v, of example_dry 5 521] example_reachable(2) by blast
  have gy: "getGroundY ?g < 521"
    using example_ground_eval(1) by (simp add: getGroundY_def)
  from splash_pool_capped[OF v, of ?g 5 521] gy
  obtain new :: "splash list" where new: "3 \<le> length new"
    "200 < length (splashes ?g @ new) \<longrightarrow> length (splashes (addSplash ?rnd ?g 5 521)) = 150"
    by blast
  have "200 < length (splashes ?g @ new)" using new(1) by simp
  with new(2) have b: "length (splashes (addSplash ?rnd ?g 5 521)) = 150" by blast
  show ?thesis using v example_reachable(2) a gy b by blast
qed


section \<open>Ground: update\<close>

text \<open>
  C7, as the code has it: in \<open>update(deltaTime)\<close> on a reachable ground, each particle
  first makes its physics step (its impact height is kept, \<open>y\<close> moves by the velocity,
  life goes down by \<open>deltaTime * 0.001 / maxLife\<close>, with \<open>maxLife\<close> never 0); it is then
  removed exactly when its life is at most 0 or its \<open>y\<close> is greater than its impact
  height, that is, strictly below it on the canvas.  A particle exactly at its impact
  height is kept.  Every particle of the new pool is the step of an old one, has life
  left and has not sunk past its impact height.
\<close>

theorem splash_removal:
  assumes "valid_random rnd" and "reachable_ground rnd g"
  shows "(\<forall>s \<in> set (splashes g).
            sp_maxLife s \<noteq> 0
          \<and> sp_life (splashStep deltaTime s) = sp_life s - (deltaTime * 0.001) / sp_maxLife s
          \<and> sp_y (splashStep deltaTime s) = sp_y s + sp_velocityY s * deltaTime * 0.001
          \<and> sp_impactY (splashStep deltaTime s) = sp_impactY s
          \<and> (splashStep deltaTime s \<in> set (splashes (Ground_update g deltaTime)) \<longleftrightarrow>
               \<not> (sp_life (splashStep deltaTime s) \<le> 0 \<or>
                  sp_impactY s < sp_y (splashStep deltaTime s))))
    \<and> (\<forall>s' \<in> set (splashes (Ground_update g deltaTime)).
          (\<exists>s \<in> set (splashes g). s' = splashStep deltaTime s) \<and>
          0 < sp_life s' \<and> sp_y s' \<le> sp_impactY s')
    \<and> splashes (Ground_update g deltaTime) =
          filter (\<lambda>s'. \<not> (sp_life s' \<le> 0 \<or> sp_impactY s' < sp_y s'))
                 (map (splashStep deltaTime) (splashes g))"
proof (intro conjI ballI)
  fix s assume s: "s \<in> set (splashes g)"
  have "0.3 \<le> sp_maxLife s"
    using reachable_ground_inv[OF assms] s by (simp add: ground_inv_def)
  then show "sp_maxLife s \<noteq> 0" by auto
  show "sp_life (splashStep deltaTime s) = sp_life s - (deltaTime * 0.001) / sp_maxLife s"
    "sp_y (splashStep deltaTime s) = sp_y s + sp_velocityY s * deltaTime * 0.001"
    "sp_impactY (splashStep deltaTime s) = sp_impactY s"
    by (rule splashStep_fields)+
  show "splashStep deltaTime s \<in> set (splashes (Ground_update g deltaTime)) \<longleftrightarrow>
          \<not> (sp_life (splashStep deltaTime s) \<le> 0 \<or> sp_impactY s < sp_y (splashStep deltaTime s))"
    using s by (auto simp: Ground_update_def splashKept_def splashStep_fields(2))
next
  fix s' assume "s' \<in> set (splashes (Ground_update g deltaTime))"
  then show "\<exists>s \<in> set (splashes g). s' = splashStep deltaTime s"
    "0 < sp_life s'" "sp_y s' \<le> sp_impactY s'"
    by (auto simp: Ground_update_def splashKept_def)
next
  have "splashKept = (\<lambda>s'. \<not> (sp_life s' \<le> 0 \<or> sp_impactY s' < sp_y s'))"
    by (auto simp: splashKept_def fun_eq_iff)
  then show "splashes (Ground_update g deltaTime) =
          filter (\<lambda>s'. \<not> (sp_life s' \<le> 0 \<or> sp_impactY s' < sp_y s'))
                 (map (splashStep deltaTime) (splashes g))"
    by (simp add: Ground_update_def)
qed

lemma example_splash_in_dry: "example_splash \<in> set (splashes example_dry)"
  by (simp add: example_dry_eval(1))

theorem splash_removal_witness:
  "valid_random (const_draws (1/2))
   \<and> reachable_ground (const_draws (1/2)) example_dry
   \<and> example_splash \<in> set (splashes example_dry)
   \<and> sp_y (splashStep 16 example_splash) = 520.44
   \<and> sp_life (splashStep 16 example_splash) = 0.968
   \<and> splashStep 16 example_splash \<in> set (splashes (Ground_update example_dry 16))
   \<and> sp_life (splashStep 600 example_splash) \<le> 0
   \<and> splashStep 600 example_splash \<notin> set (splashes (Ground_update example_dry 600))"
proof -
  have v: "valid_random (const_draws (1/2))" by (simp add: valid_const_draws)
  note r = example_reachable(2)
  note i = example_splash_in_dry
  have e: "sp_y (splashStep 16 example_splash) = 520.44"
    "sp_life (splashStep 16 example_splash) = 0.968"
    "sp_life (splashStep 600 example_splash) \<le> 0"
    "sp_impactY example_splash = 521"
    by (simp_all add: splashStep_def example_splash_def Let_def)
  have a: "splashStep 16 example_splash \<in> set (splashes (Ground_update example_dry 16))"
    using splash_removal[OF v r, of 16] i e by simp
  have b: "splashStep 600 example_splash \<notin> set (splashes (Ground_update example_dry 600))"
    using splash_removal[OF v r, of 600] i e by simp
  show ?thesis using v r i e a b by simp
qed

lemma update_keeps:
  assumes "s \<in> set (splashes g)" "splashKept (splashStep dt s)"
  shows "splashStep dt s \<in> set (splashes (Ground_update g dt))"
  using assms by (simp add: Ground_update_def)

text \<open>
  C7, as stated, fails at the impact height itself, where the statement removes the
  particle and the code keeps it.  After the impact at \<open>(5, 521)\<close> the particles are at
  \<open>y = 521\<close>, their impact height: an update with \<open>deltaTime = 0\<close> leaves them there and
  keeps them.  And a particle that has risen (to 519.25 after 50 ms) and fallen back
  to exactly 521 after another \<open>175000 / 1393\<close> ms is kept as well.
\<close>

theorem splash_at_impact_height_counterexample:
  "reachable_ground (const_draws (1/2)) example_dry
   \<and> example_splash \<in> set (splashes example_dry)
   \<and> spec_removed (splashStep 0 example_splash)
   \<and> splashStep 0 example_splash \<in> set (splashes (Ground_update example_dry 0))
   \<and> sp_y (splashStep 50 example_splash) < sp_impactY example_splash
   \<and> sp_y (splashStep (175000 / 1393) (splashStep 50 example_splash)) = sp_impactY example_splash
   \<and> spec_removed (splashStep (175000 / 1393) (splashStep 50 example_splash))
   \<and> splashStep (175000 / 1393) (splashStep 50 example_splash)
       \<in> set (splashes (Ground_update (Ground_update example_dry 50) (175000 / 1393)))"
proof -
  note i = example_splash_in_dry
  have k0: "splashKept (splashStep 0 example_splash)"
    by (simp add: splashKept_def splashStep_def example_splash_def Let_def)
  have r0: "spec_removed (splashStep 0 example_splash)"
    by (simp add: spec_removed_def splashStep_def example_splash_def Let_def)
  have k1: "splashKept (splashStep 50 example_splash)"
    and up: "sp_y (splashStep 50 example_splash) < sp_impactY example_splash"
    by (simp_all add: splashKept_def splashStep_def example_splash_def Let_def)
  have k2: "splashKept (splashStep (175000 / 1393) (splashStep 50 example_splash))"
    and at: "sp_y (splashStep (175000 / 1393) (splashStep 50 example_splash))
               = sp_impactY example_splash"
    by (simp_all add: splashKept_def splashStep_def example_splash_def Let_def)
  have r2: "spec_removed (splashStep (175000 / 1393) (splashStep 50 example_splash))"
    by (simp add: spec_removed_def splashStep_def example_splash_def Let_def)
  note m0 = update_keeps[OF i k0]
  note m2 = update_keeps[OF update_keeps[OF i k1] k2]
  show ?thesis
    using example_reachable(2) i r0 m0 up at r2 m2 by blast
qed

text \<open>
  C8: in \<open>update(deltaTime)\<close> with \<open>deltaTime \<ge> 0\<close> on a reachable ground, the puddles
  stay in place and every ripple of every puddle makes its step: the radius does not
  decrease, the opacity does not increase, the radius cap is unchanged; the ripple
  stays in its puddle exactly when after the step its radius is below the cap and its
  opacity is positive, so it is removed by the very update on which the radius reaches
  the cap or the opacity reaches 0.
\<close>

theorem ripple_grows_fades_until_removed:
  assumes "valid_random rnd" and "reachable_ground rnd g" and "0 \<le> deltaTime"
  shows "length (puddles (Ground_update g deltaTime)) = length (puddles g)
    \<and> (\<forall>i < length (puddles g).
          pd_ripples (puddles (Ground_update g deltaTime) ! i) =
            filter (\<lambda>r'. rp_radius r' < rp_maxRadius r' \<and> 0 < rp_opacity r')
                   (map (rippleStep deltaTime) (pd_ripples (puddles g ! i)))
        \<and> (\<forall>r \<in> set (pd_ripples (puddles g ! i)).
              rp_radius r \<le> rp_radius (rippleStep deltaTime r)
            \<and> rp_opacity (rippleStep deltaTime r) \<le> rp_opacity r
            \<and> rp_maxRadius (rippleStep deltaTime r) = rp_maxRadius r
            \<and> (rippleStep deltaTime r \<in> set (pd_ripples (puddles (Ground_update g deltaTime) ! i))
                 \<longleftrightarrow> rp_radius (rippleStep deltaTime r) < rp_maxRadius r \<and>
                     0 < rp_opacity (rippleStep deltaTime r))))"
proof (intro conjI allI impI ballI)
  show "length (puddles (Ground_update g deltaTime)) = length (puddles g)"
    by (simp add: Ground_update_def)
next
  fix i assume i: "i < length (puddles g)"
  have k: "rippleKept = (\<lambda>r'. rp_radius r' < rp_maxRadius r' \<and> 0 < rp_opacity r')"
    by (auto simp: rippleKept_def fun_eq_iff)
  show e: "pd_ripples (puddles (Ground_update g deltaTime) ! i) =
            filter (\<lambda>r'. rp_radius r' < rp_maxRadius r' \<and> 0 < rp_opacity r')
                   (map (rippleStep deltaTime) (pd_ripples (puddles g ! i)))"
    using i by (simp add: Ground_update_def updatePuddle_def k)
  fix r assume r: "r \<in> set (pd_ripples (puddles g ! i))"
  have "puddles g ! i \<in> set (puddles g)" using i by simp
  with r have c: "ripple_consistent r"
    using reachable_ground_inv[OF assms(1,2)] by (simp add: ground_inv_def)
  note m = rippleStep_monotone[OF c assms(3)]
  show "rp_radius r \<le> rp_radius (rippleStep deltaTime r)" by (rule m(1))
  show "rp_opacity (rippleStep deltaTime r) \<le> rp_opacity r" by (rule m(2))
  show "rp_maxRadius (rippleStep deltaTime r) = rp_maxRadius r" by (rule m(3))
  show "rippleStep deltaTime r \<in> set (pd_ripples (puddles (Ground_update g deltaTime) ! i))
          \<longleftrightarrow> rp_radius (rippleStep deltaTime r) < rp_maxRadius r \<and>
              0 < rp_opacity (rippleStep deltaTime r)"
    unfolding e using r by (auto simp: m(3))
qed

theorem ripple_grows_fades_until_removed_witness:
  "valid_random (const_draws (1/2))
   \<and> reachable_ground (const_draws (1/2)) example_wet
   \<and> (0::real) \<le> 16
   \<and> 1 < length (puddles example_wet)
   \<and> example_ripple \<in> set (pd_ripples (puddles example_wet ! 1))
   \<and> rp_radius example_ripple \<le> rp_radius (rippleStep 16 example_ripple)
   \<and> rp_opacity (rippleStep 16 example_ripple) \<le> rp_opacity example_ripple
   \<and> rp_radius (rippleStep 16 example_ripple) = 0.32
   \<and> rippleStep 16 example_ripple \<in> set (pd_ripples (puddles (Ground_update example_wet 16) ! 1))
   \<and> rp_radius (rippleStep 850 example_ripple) = 17
   \<and> rippleStep 850 example_ripple \<notin> set (pd_ripples (puddles (Ground_update example_wet 850) ! 1))"
proof -
  have v: "valid_random (const_draws (1/2))" by (simp add: valid_const_draws)
  note r = example_reachable(3)
  have l: "1 < length (puddles example_wet)" by (simp add: example_wet_eval(2))
  have i: "example_ripple \<in> set (pd_ripples (puddles example_wet ! 1))"
    unfolding example_wet_eval(1) by simp
  have e: "rp_radius (rippleStep 16 example_ripple) = 0.32"
    "rp_opacity (rippleStep 16 example_ripple) = 0.9808"
    "rp_radius (rippleStep 850 example_ripple) = 17"
    "rp_maxRadius example_ripple = 17"
    by (simp_all add: rippleStep_def example_ripple_def Let_def)
  have p: "(0::real) \<le> 16" "(0::real) \<le> 850" by simp_all
  from ripple_grows_fades_until_removed[OF v r p(1)] l i
  have a: "rp_radius example_ripple \<le> rp_radius (rippleStep 16 example_ripple)
         \<and> rp_opacity (rippleStep 16 example_ripple) \<le> rp_opacity example_ripple
         \<and> (rippleStep 16 example_ripple \<in> set (pd_ripples (puddles (Ground_update example_wet 16) ! 1))
              \<longleftrightarrow> rp_radius (rippleStep 16 example_ripple) < rp_maxRadius example_ripple \<and>
                  0 < rp_opacity (rippleStep 16 example_ripple))"
    by blast
  from ripple_grows_fades_until_removed[OF v r p(2)] l i
  have b: "rippleStep 850 example_ripple \<in> set (pd_ripples (puddles (Ground_update example_wet 850) ! 1))
              \<longleftrightarrow> rp_radius (rippleStep 850 example_ripple) < rp_maxRadius example_ripple \<and>
                  0 < rp_opacity (rippleStep 850 example_ripple)"
    by blast
  show ?thesis using v r l i a b by (simp add: e)
qed


section \<open>Rounding to binary64: bounds and values\<close>

lemma spacing_numeral:
  "spacing (numeral n) k x =
     (if 1 / 2 ^ k \<le> x then 1 / 2 ^ (k + 52) else spacing (pred_numeral n) (Suc k) x)"
  by (simp add: numeral_eq_Suc)

lemma spacing_power: "\<exists>m. spacing n k x = 1 / 2 ^ (m + 52)"
  by (induction n arbitrary: k) auto

lemma ulp64_power: "\<exists>m. ulp64 x = 1 / 2 ^ (m + 52)"
  unfolding ulp64_def by (rule spacing_power)

lemma round_even_le: "q \<le> of_int n \<Longrightarrow> round_even q \<le> n"
proof -
  assume a: "q \<le> of_int n"
  have f: "\<lfloor>q\<rfloor> \<le> n" using a by (simp add: floor_le_iff) 
  show ?thesis
  proof (cases "q = of_int n")
    case True
    then show ?thesis by (simp add: round_even_def)
  next
    case False
    with a have "q < of_int n" by simp
    then have "\<lfloor>q\<rfloor> < n" by (simp add: floor_less_iff)
    then show ?thesis by (simp add: round_even_def Let_def)
  qed
qed

lemma round_even_ge: "of_int n \<le> q \<Longrightarrow> n \<le> round_even q"
proof -
  assume "of_int n \<le> q"
  then have "n \<le> \<lfloor>q\<rfloor>" by (simp add: le_floor_iff)
  then show ?thesis by (simp add: round_even_def Let_def)
qed

text \<open>A multiple of \<open>2^-52\<close> bounds the rounded value as it bounds the exact one.\<close>

lemma fl64_le_grid:
  assumes "x \<le> of_int a / 2 ^ 52"
  shows "fl64 x \<le> of_int a / 2 ^ 52"
proof -
  obtain m where u: "ulp64 x = 1 / 2 ^ (m + 52)" using ulp64_power by blast
  have "x / ulp64 x = x * 2 ^ (m + 52)" by (simp add: u)
  also have "\<dots> \<le> (of_int a / 2 ^ 52) * 2 ^ (m + 52)"
    using assms by (intro mult_right_mono) simp_all
  also have "\<dots> = of_int (a * 2 ^ m)" by (simp add: power_add)
  finally have "round_even (x / ulp64 x) \<le> a * 2 ^ m" by (rule round_even_le)
  then have "of_int (round_even (x / ulp64 x)) \<le> (of_int (a * 2 ^ m) :: real)"
    by (simp only: of_int_le_iff)
  then have "fl64 x \<le> of_int (a * 2 ^ m) * (1 / 2 ^ (m + 52))"
    unfolding fl64_def u by (intro mult_right_mono) simp_all
  also have "\<dots> = of_int a / 2 ^ 52" by (simp add: power_add)
  finally show ?thesis .
qed

lemma fl64_ge_grid:
  assumes "of_int a / 2 ^ 52 \<le> x"
  shows "of_int a / 2 ^ 52 \<le> fl64 x"
proof -
  obtain m where u: "ulp64 x = 1 / 2 ^ (m + 52)" using ulp64_power by blast
  have "(of_int (a * 2 ^ m) :: real) = (of_int a / 2 ^ 52) * 2 ^ (m + 52)"
    by (simp add: power_add)
  also have "\<dots> \<le> x * 2 ^ (m + 52)"
    using assms by (intro mult_right_mono) simp_all
  also have "\<dots> = x / ulp64 x" by (simp add: u)
  finally have "a * 2 ^ m \<le> round_even (x / ulp64 x)" by (rule round_even_ge)
  then have "(of_int (a * 2 ^ m) :: real) \<le> of_int (round_even (x / ulp64 x))"
    by (simp only: of_int_le_iff)
  then have "of_int (a * 2 ^ m) * (1 / 2 ^ (m + 52)) \<le> fl64 x"
    unfolding fl64_def u by (intro mult_right_mono) simp_all
  moreover have "of_int (a * 2 ^ m) * (1 / 2 ^ (m + 52)) = (of_int a / 2 ^ 52 :: real)"
    by (simp add: power_add)
  ultimately show ?thesis by (simp only:)
qed

lemma fl64_literals:
  "lit_0_8 = 3602879701896397 / 2 ^ 52"
  "lit_0_2 = 3602879701896397 / 2 ^ 54"
  by (simp_all add: lit_0_8_def lit_0_2_def fl64_def ulp64_def spacing_numeral round_even_def
      Let_def)

text \<open>From 1 to just below \<open>1 + 2^-53\<close>, the rounded value is 1.\<close>

lemma fl64_just_above_one:
  assumes "1 \<le> x" "x < 1 + 1 / 2 ^ 53"
  shows "fl64 x = 1"
proof -
  have u: "ulp64 x = 1 / 2 ^ 52" using assms(1) by (simp add: ulp64_def spacing_numeral)
  have q: "x / ulp64 x = x * 2 ^ 52" by (simp add: u)
  have lo: "(2 ^ 52 :: real) \<le> x * 2 ^ 52" using assms(1) by simp
  have hi: "x * 2 ^ 52 < 2 ^ 52 + 1 / 2" using assms(2) by simp
  have "\<lfloor>x * 2 ^ 52\<rfloor> = 2 ^ 52"
    using lo hi by (intro floor_unique) simp_all
  then have "round_even (x * 2 ^ 52) = 2 ^ 52"
    using hi by (simp add: round_even_def Let_def)
  then show ?thesis by (simp add: fl64_def q u)
qed

lemma drawn_intensity_bounds:
  assumes "0 \<le> r" "r < 1"
  shows "0 \<le> fl64 (fl64 (r * lit_0_8) + lit_0_2)"
    and "fl64 (fl64 (r * lit_0_8) + lit_0_2) \<le> 1"
proof -
  let ?p = "fl64 (r * lit_0_8)"
  have "r * (3602879701896397 / 2 ^ 52) \<le> 1 * (3602879701896397 / 2 ^ 52)"
    using assms(2) by (intro mult_right_mono) simp_all
  then have "r * lit_0_8 \<le> of_int 3602879701896397 / 2 ^ 52"
    by (simp add: fl64_literals)
  from fl64_le_grid[OF this] have p_hi: "?p \<le> 3602879701896397 / 2 ^ 52" by simp
  have "of_int 0 / 2 ^ 52 \<le> r * lit_0_8"
    using assms(1) by (simp add: fl64_literals)
  from fl64_ge_grid[OF this] have p_lo: "0 \<le> ?p" by simp
  have "of_int 0 / 2 ^ 52 \<le> ?p + lit_0_2" using p_lo by (simp add: fl64_literals)
  from fl64_ge_grid[OF this] show "0 \<le> fl64 (?p + lit_0_2)" by simp
  have s_hi: "?p + lit_0_2 < 1 + 1 / 2 ^ 53" using p_hi by (simp add: fl64_literals)
  show "fl64 (?p + lit_0_2) \<le> 1"
  proof (cases "1 \<le> ?p + lit_0_2")
    case True
    from fl64_just_above_one[OF True s_hi] show ?thesis by simp
  next
    case False
    then have "?p + lit_0_2 \<le> of_int (2 ^ 52) / 2 ^ 52" by simp
    from fl64_le_grid[OF this] show ?thesis by simp
  qed
qed

lemma drawn_intensity_values:
  "fl64 (fl64 ((1 - 1 / 2 ^ 53) * lit_0_8) + lit_0_2) = 1"
  "fl64 (fl64 (1 / 2 * lit_0_8) + lit_0_2) = 1351079888211149 / 2251799813685248"
  by (simp_all add: fl64_literals fl64_def ulp64_def spacing_numeral round_even_def Let_def)

section \<open>Lightning: the invariant and the flash envelope\<close>

lemma scheduleNextStrike_fields:
  "isActive (scheduleNextStrike rnd l) = isActive l"
  "duration (scheduleNextStrike rnd l) = duration l"
  "maxDuration (scheduleNextStrike rnd l) = maxDuration l"
  "intensity (scheduleNextStrike rnd l) = intensity l"
  by (simp_all add: scheduleNextStrike_def)

lemma strike_fields:
  "isActive (strike rnd l w h now) = True"
  "duration (strike rnd l w h now) = 0"
  "maxDuration (strike rnd l w h now) = maxDuration l"
  "intensity (strike rnd l w h now) = fl64 (fl64 (rnd (lt_cursor l) * lit_0_8) + lit_0_2)"
  by (simp_all add: strike_def scheduleNextStrike_def Let_def split: prod.splits)

lemma Lightning_new_fields:
  "isActive (Lightning_new rnd k cb) = False"
  "maxDuration (Lightning_new rnd k cb) = 200"
  "intensity (Lightning_new rnd k cb) = 0"
  "lt_cursor (Lightning_new rnd k cb) = k + 1"
  by (simp_all add: Lightning_new_def scheduleNextStrike_def)

lemma lightning_inv_strike:
  assumes "valid_random rnd" "lightning_inv l"
  shows "lightning_inv (strike rnd l w h now)"
proof -
  note r = valid_randomD[OF assms(1), of "lt_cursor l"]
  from drawn_intensity_bounds[of "rnd (lt_cursor l)"] r
  have "0 \<le> fl64 (fl64 (rnd (lt_cursor l) * lit_0_8) + lit_0_2)"
    "fl64 (fl64 (rnd (lt_cursor l) * lit_0_8) + lit_0_2) \<le> 1"
    by simp_all
  then show ?thesis
    using assms(2) by (simp add: lightning_inv_def strike_fields)
qed

lemma lightning_inv_update:
  assumes "valid_random rnd" "lightning_inv l" "0 \<le> dt"
  shows "lightning_inv (Lightning_update rnd l w h dt now)"
proof (cases "isActive l")
  case True
  then show ?thesis
    using assms(2,3) by (auto simp: Lightning_update_def lightning_inv_def Let_def)
next
  case False
  have "lightning_inv (l\<lparr>lt_cursor := lt_cursor l + 1\<rparr>)"
    using assms(2) by (auto simp: lightning_inv_def)
  from lightning_inv_strike[OF assms(1) this] this assms(2) False
  show ?thesis by (auto simp: Lightning_update_def Let_def)
qed

lemma reachable_lightning_inv:
  assumes "valid_random rnd" "reachable_lightning rnd l"
  shows "lightning_inv l"
  using assms(2)
proof (induction rule: reachable_lightning.induct)
  case (lightning_new k callback)
  show ?case by (simp add: lightning_inv_def Lightning_new_fields)
next
  case (lightning_strike l canvasWidth canvasHeight now)
  then show ?case by (simp add: lightning_inv_strike[OF assms(1)])
next
  case (lightning_update l deltaTime canvasWidth canvasHeight now)
  then show ?case by (simp add: lightning_inv_update[OF assms(1)])
next
  case (lightning_draws l n)
  then show ?case by (auto simp: lightning_inv_def)
qed

lemma scaled_in_unit:
  fixes i q :: real
  assumes "0 \<le> i" "0 \<le> q" "q \<le> 1"
  shows "0 \<le> i * q \<and> i * q \<le> i"
proof -
  have "i * q \<le> i * 1" using assms(1,3) by (rule mult_left_mono[rotated])
  then show ?thesis using assms by simp
qed

lemma getFlashIntensity_envelope:
  "getFlashIntensity l =
     (if isActive l then spec_envelope (intensity l) (duration l / maxDuration l) else 0)"
  by (simp add: getFlashIntensity_def spec_envelope_def Let_def)

lemma spec_envelope_unit:
  fixes i p :: real
  assumes "0 \<le> i" "0 \<le> p" "p < 1"
  shows "0 \<le> spec_envelope i p \<and> spec_envelope i p \<le> i"
proof (cases "p < 0.1")
  case True
  have "0 \<le> p / 0.1 \<and> p / 0.1 \<le> 1" using True assms(2) by simp
  then show ?thesis using scaled_in_unit[OF assms(1)] True by (simp add: spec_envelope_def)
next
  case False
  have "0 \<le> 1 - (p - 0.1) / 0.9 \<and> 1 - (p - 0.1) / 0.9 \<le> 1" using False assms(3) by simp
  then show ?thesis using scaled_in_unit[OF assms(1)] False by (simp add: spec_envelope_def)
qed

lemma spec_envelope_rise:
  fixes i p1 p2 :: real
  assumes "0 \<le> i" "p1 \<le> p2" "p2 \<le> 0.1"
  shows "spec_envelope i p1 \<le> spec_envelope i p2"
proof -
  have a: "spec_envelope i p = i * (if p < 0.1 then p / 0.1 else 1 - (p - 0.1) / 0.9)" for p
    by (simp add: spec_envelope_def)
  have "(if p1 < 0.1 then p1 / 0.1 else 1 - (p1 - 0.1) / 0.9)
      \<le> (if p2 < 0.1 then p2 / 0.1 else 1 - (p2 - 0.1) / 0.9)"
    using assms(2,3) by (simp add: field_simps)
  then show ?thesis unfolding a using assms(1) by (rule mult_left_mono)
qed

lemma spec_envelope_fall:
  fixes i p1 p2 :: real
  assumes "0 \<le> i" "0.1 \<le> p1" "p1 \<le> p2"
  shows "spec_envelope i p2 \<le> spec_envelope i p1"
proof -
  have a: "spec_envelope i p = i * (if p < 0.1 then p / 0.1 else 1 - (p - 0.1) / 0.9)" for p
    by (simp add: spec_envelope_def)
  have "(if p2 < 0.1 then p2 / 0.1 else 1 - (p2 - 0.1) / 0.9)
      \<le> (if p1 < 0.1 then p1 / 0.1 else 1 - (p1 - 0.1) / 0.9)"
    using assms(2,3) by (simp add: field_simps)
  then show ?thesis unfolding a using assms(1) by (rule mult_left_mono)
qed

text \<open>
  C3: for a reachable generator, \<open>getFlashIntensity\<close> is 0 while idle; while active it
  is the envelope of the specification at \<open>p = duration / maxDuration\<close>.  As a function
  of the elapsed duration, with the generator's intensity, the value does not decrease
  up to \<open>p = 0.1\<close>, where it is the intensity, does not increase from there on, and is
  0 at \<open>p = 1\<close>.
\<close>

theorem flash_envelope:
  assumes "valid_random rnd" and "reachable_lightning rnd l"
  shows "(\<not> isActive l \<longrightarrow> getFlashIntensity l = 0)
    \<and> (isActive l \<longrightarrow>
         getFlashIntensity l = spec_envelope (intensity l) (duration l / maxDuration l))
    \<and> (\<forall>d1 d2. d1 \<le> d2 \<and> d2 / maxDuration l \<le> 0.1 \<longrightarrow>
         getFlashIntensity (l\<lparr>isActive := True, duration := d1\<rparr>)
         \<le> getFlashIntensity (l\<lparr>isActive := True, duration := d2\<rparr>))
    \<and> (\<forall>d1 d2. 0.1 \<le> d1 / maxDuration l \<and> d1 \<le> d2 \<longrightarrow>
         getFlashIntensity (l\<lparr>isActive := True, duration := d2\<rparr>)
         \<le> getFlashIntensity (l\<lparr>isActive := True, duration := d1\<rparr>))
    \<and> getFlashIntensity (l\<lparr>isActive := True, duration := 0.1 * maxDuration l\<rparr>) = intensity l
    \<and> getFlashIntensity (l\<lparr>isActive := True, duration := maxDuration l\<rparr>) = 0"
proof -
  have inv: "maxDuration l = 200" "0 \<le> intensity l"
    using reachable_lightning_inv[OF assms] by (simp_all add: lightning_inv_def)
  have rise: "getFlashIntensity (l\<lparr>isActive := True, duration := d1\<rparr>)
         \<le> getFlashIntensity (l\<lparr>isActive := True, duration := d2\<rparr>)"
    if "d1 \<le> d2 \<and> d2 / maxDuration l \<le> 0.1" for d1 d2
  proof -
    have "d1 / maxDuration l \<le> d2 / maxDuration l" using that inv(1) by simp
    from spec_envelope_rise[OF inv(2) this] that show ?thesis
      by (simp add: getFlashIntensity_envelope)
  qed
  have fall: "getFlashIntensity (l\<lparr>isActive := True, duration := d2\<rparr>)
         \<le> getFlashIntensity (l\<lparr>isActive := True, duration := d1\<rparr>)"
    if "0.1 \<le> d1 / maxDuration l \<and> d1 \<le> d2" for d1 d2
  proof -
    have "d1 / maxDuration l \<le> d2 / maxDuration l" using that inv(1) by simp
    from spec_envelope_fall[OF inv(2) _ this] that show ?thesis
      by (simp add: getFlashIntensity_envelope)
  qed
  have peak: "getFlashIntensity (l\<lparr>isActive := True, duration := 0.1 * maxDuration l\<rparr>) = intensity l"
    using inv(1) by (simp add: getFlashIntensity_def Let_def)
  have zero: "getFlashIntensity (l\<lparr>isActive := True, duration := maxDuration l\<rparr>) = 0"
    using inv(1) by (simp add: getFlashIntensity_def Let_def)
  show ?thesis
    using rise fall peak zero by (simp add: getFlashIntensity_envelope)
qed

text \<open>
  C10, as the code has it: in every reachable state of the generator, \<open>maxDuration\<close> is
  200, an active strike has an elapsed duration in \<open>[0, maxDuration)\<close>, and
  \<open>getFlashIntensity\<close> lies in \<open>[0, 1]\<close>: it is never negative, never above the intensity
  of the strike and never above 1.  So the alpha of the flash overlay, the intensity
  times 0.3, lies in \<open>[0, 0.3]\<close>.
\<close>

theorem flash_intensity_bounded:
  assumes "valid_random rnd" and "reachable_lightning rnd l"
  shows "maxDuration l = 200
    \<and> (isActive l \<longrightarrow> 0 \<le> duration l \<and> duration l < maxDuration l)
    \<and> 0 \<le> getFlashIntensity l \<and> getFlashIntensity l \<le> intensity l \<and> intensity l \<le> 1
    \<and> getFlashIntensity l \<le> 1
    \<and> 0 \<le> getFlashIntensity l * 0.3 \<and> getFlashIntensity l * 0.3 \<le> 0.3"
proof -
  note inv = reachable_lightning_inv[OF assms, unfolded lightning_inv_def]
  have b: "0 \<le> getFlashIntensity l \<and> getFlashIntensity l \<le> intensity l"
  proof (cases "isActive l")
    case True
    then have "0 \<le> duration l / maxDuration l \<and> duration l / maxDuration l < 1"
      using inv by simp
    then show ?thesis
      using spec_envelope_unit[of "intensity l" "duration l / maxDuration l"] inv True
      by (simp add: getFlashIntensity_envelope)
  next
    case False
    then show ?thesis using inv by (simp add: getFlashIntensity_def)
  qed
  then have c: "getFlashIntensity l \<le> 1" using inv by linarith
  with b have "0 \<le> getFlashIntensity l * 0.3 \<and> getFlashIntensity l * 0.3 \<le> 0.3" by simp
  with b c inv show ?thesis by auto
qed

text \<open>The example generator, evaluated.\<close>

lemma example_lightning_eval:
  "isActive example_strike" "duration example_strike = 0"
  "intensity example_strike = 1351079888211149 / 2251799813685248"
  "maxDuration example_strike = 200"
  "isActive example_flash" "duration example_flash = 16"
  "intensity example_flash = 1351079888211149 / 2251799813685248"
  "maxDuration example_flash = 200"
proof -
  show i: "intensity example_strike = 1351079888211149 / 2251799813685248"
    unfolding example_strike_def strike_fields const_draws_def
    by (rule drawn_intensity_values(2))
  show s: "isActive example_strike" "duration example_strike = 0"
    "maxDuration example_strike = 200"
    by (simp_all add: example_strike_def strike_fields Lightning_new_fields)
  show "isActive example_flash" "duration example_flash = 16"
    "intensity example_flash = 1351079888211149 / 2251799813685248"
    "maxDuration example_flash = 200"
    using s i by (simp_all add: example_flash_def Lightning_update_def Let_def)
qed

lemma example_lightning_reachable:
  "reachable_lightning (const_draws (1/2)) example_strike"
  "reachable_lightning (const_draws (1/2)) example_flash"
  unfolding example_flash_def example_strike_def
  by (intro lightning_update lightning_strike lightning_new, simp?)+

theorem flash_envelope_witness:
  "valid_random (const_draws (1/2))
   \<and> reachable_lightning (const_draws (1/2)) example_flash
   \<and> isActive example_flash
   \<and> getFlashIntensity example_flash = 1351079888211149 / 2814749767106560
   \<and> \<not> isActive (Lightning_new (const_draws (1/2)) 0 True)
   \<and> getFlashIntensity (Lightning_new (const_draws (1/2)) 0 True) = 0
   \<and> (16::real) \<le> 18 \<and> 18 / maxDuration example_flash \<le> 0.1
   \<and> getFlashIntensity (example_flash\<lparr>isActive := True, duration := 16\<rparr>)
       \<le> getFlashIntensity (example_flash\<lparr>isActive := True, duration := 18\<rparr>)
   \<and> 0.1 \<le> 20 / maxDuration example_flash \<and> (20::real) \<le> 110
   \<and> getFlashIntensity (example_flash\<lparr>isActive := True, duration := 110\<rparr>)
       \<le> getFlashIntensity (example_flash\<lparr>isActive := True, duration := 20\<rparr>)
   \<and> getFlashIntensity (example_flash\<lparr>isActive := True, duration := 20\<rparr>)
       = 1351079888211149 / 2251799813685248
   \<and> getFlashIntensity (example_flash\<lparr>isActive := True, duration := 200\<rparr>) = 0"
proof -
  let ?rnd = "const_draws (1/2)"
  have v: "valid_random ?rnd" by (simp add: valid_const_draws)
  note r = example_lightning_reachable(2)
  note t = flash_envelope[OF v r]
  have n: "reachable_lightning ?rnd (Lightning_new ?rnd 0 True)" by (rule lightning_new)
  have idle: "getFlashIntensity (Lightning_new ?rnd 0 True) = 0"
    using flash_envelope[OF v n] by (simp add: Lightning_new_fields)
  have a: "getFlashIntensity example_flash = 1351079888211149 / 2814749767106560"
    using t by (simp add: example_lightning_eval spec_envelope_def)
  have h1: "(16::real) \<le> 18 \<and> 18 / maxDuration example_flash \<le> 0.1"
    by (simp add: example_lightning_eval)
  have h2: "0.1 \<le> 20 / maxDuration example_flash \<and> (20::real) \<le> 110"
    by (simp add: example_lightning_eval)
  have m1: "getFlashIntensity (example_flash\<lparr>isActive := True, duration := 16\<rparr>)
       \<le> getFlashIntensity (example_flash\<lparr>isActive := True, duration := 18\<rparr>)"
    using t h1 by blast
  have m2: "getFlashIntensity (example_flash\<lparr>isActive := True, duration := 110\<rparr>)
       \<le> getFlashIntensity (example_flash\<lparr>isActive := True, duration := 20\<rparr>)"
    using t h2 by blast
  have pk: "getFlashIntensity (example_flash\<lparr>isActive := True, duration := 20\<rparr>)
              = 1351079888211149 / 2251799813685248"
    "getFlashIntensity (example_flash\<lparr>isActive := True, duration := 200\<rparr>) = 0"
    using t by (simp_all add: example_lightning_eval)
  show ?thesis
    using v r a idle h1 h2 m1 m2 pk by (simp add: example_lightning_eval Lightning_new_fields)
qed

theorem flash_intensity_bounded_witness:
  "valid_random (const_draws (1/2))
   \<and> reachable_lightning (const_draws (1/2)) example_flash
   \<and> isActive example_flash
   \<and> duration example_flash = 16
   \<and> duration example_flash < maxDuration example_flash
   \<and> 0 \<le> getFlashIntensity example_flash
   \<and> getFlashIntensity example_flash \<le> intensity example_flash
   \<and> getFlashIntensity example_flash \<le> 1"
proof -
  have v: "valid_random (const_draws (1/2))" by (simp add: valid_const_draws)
  note r = example_lightning_reachable(2)
  show ?thesis
    using v r flash_intensity_bounded[OF v r] by (simp add: example_lightning_eval)
qed

text \<open>The generator with the greatest draws, evaluated.\<close>

lemma brightest_eval:
  "valid_random (const_draws (1 - 1 / 2 ^ 53))"
  "reachable_lightning (const_draws (1 - 1 / 2 ^ 53)) brightest_flash"
  "intensity brightest_strike = 1"
  "isActive brightest_flash" "duration brightest_flash = 20"
  "maxDuration brightest_flash = 200" "intensity brightest_flash = 1"
proof -
  show "valid_random (const_draws (1 - 1 / 2 ^ 53))"
    by (rule valid_const_draws) simp_all
  show "reachable_lightning (const_draws (1 - 1 / 2 ^ 53)) brightest_flash"
    unfolding brightest_flash_def brightest_strike_def
    by (intro lightning_update lightning_strike lightning_new) simp
  show i: "intensity brightest_strike = 1"
    unfolding brightest_strike_def strike_fields const_draws_def
    by (rule drawn_intensity_values(1))
  have s: "isActive brightest_strike" "duration brightest_strike = 0"
    "maxDuration brightest_strike = 200"
    by (simp_all add: brightest_strike_def strike_fields Lightning_new_fields)
  show "isActive brightest_flash" "duration brightest_flash = 20"
    "maxDuration brightest_flash = 200" "intensity brightest_flash = 1"
    using s i by (simp_all add: brightest_flash_def Lightning_update_def Let_def)
qed

text \<open>
  C10, as stated, fails at its upper bound.  With the draw \<open>1 - 2^-53\<close> the product
  with 0.8 rounds to \<open>7205759403792793 / 2^53\<close>, and the sum with 0.2 is \<open>1 - 2^-54\<close>,
  halfway between the binary64 numbers \<open>1 - 2^-53\<close> and 1: it rounds to 1.  After a
  frame of 20 ms the strike is active at a tenth of \<open>maxDuration\<close>, the peak of the
  envelope, and \<open>getFlashIntensity\<close> is 1.
\<close>

theorem flash_intensity_reaches_one_counterexample:
  "valid_random (const_draws (1 - 1 / 2 ^ 53))
   \<and> reachable_lightning (const_draws (1 - 1 / 2 ^ 53)) brightest_flash
   \<and> isActive brightest_flash
   \<and> duration brightest_flash = 20
   \<and> getFlashIntensity brightest_flash = 1
   \<and> \<not> getFlashIntensity brightest_flash < 1"
proof -
  have "getFlashIntensity brightest_flash = 1"
    by (simp add: getFlashIntensity_def Let_def brightest_eval)
  then show ?thesis using brightest_eval by simp
qed

section \<open>RainScene: the raindrop population\<close>

lemma length_newRaindrops: "length (newRaindrops rnd k w h n) = n"
  by (induction n arbitrary: k) simp_all

lemma length_updateDrops:
  "updateDrops rnd k w h ds = (ds', k') \<Longrightarrow> length ds' = length ds"
proof (induction ds arbitrary: k ds' k')
  case Nil
  then show ?case by simp
next
  case (Cons d ds)
  show ?case
  proof (cases "isOutOfBounds (Raindrop_update d h) h")
    case True
    obtain es j where e: "updateDrops rnd (k + 5) w h ds = (es, j)" by force
    from Cons.IH[OF e] Cons.prems True e show ?thesis by (auto simp: Let_def)
  next
    case False
    obtain es j where e: "updateDrops rnd k w h ds = (es, j)" by force
    from Cons.IH[OF e] Cons.prems False e show ?thesis by (auto simp: Let_def)
  qed
qed

lemma createRain_fields:
  "raindrops (createRain rnd s) =
     newRaindrops rnd (sc_cursor s) (sc_canvas_width s) (sc_canvas_height s) (nat (rainIntensity s))"
  "rainIntensity (createRain rnd s) = rainIntensity s"
  by (simp_all add: createRain_def)

lemma resizeCanvas_fields:
  "rainIntensity (resizeCanvas rnd s w h) = rainIntensity s"
  "length (raindrops (resizeCanvas rnd s w h)) = nat (rainIntensity s)"
  by (simp_all add: resizeCanvas_def createRain_fields createStars_def length_newRaindrops)

lemma RainScene_new_fields:
  assumes "RainScene_new rnd k True w h = Inr s"
  shows "rainIntensity s = 200" "length (raindrops s) = 200"
  using assms
  by (auto simp: RainScene_new_def Let_def createRain_fields createStars_def resizeCanvas_fields
      length_newRaindrops)

lemma RainScene_update_fields:
  "rainIntensity (RainScene_update rnd s t now) = rainIntensity s"
  "length (raindrops (RainScene_update rnd s t now)) = length (raindrops s)"
proof -
  show "rainIntensity (RainScene_update rnd s t now) = rainIntensity s"
    by (simp add: RainScene_update_def Let_def split: prod.splits)
  have "length ds = length (raindrops s)"
    if "updateDrops rnd k w h (raindrops s) = (ds, k')" for k w h ds k'
    using that by (rule length_updateDrops)
  then show "length (raindrops (RainScene_update rnd s t now)) = length (raindrops s)"
    by (auto simp: RainScene_update_def Let_def split: prod.splits)
qed

lemma changeRainIntensity_intensity:
  "rainIntensity (changeRainIntensity rnd s delta) = max 50 (min 500 (rainIntensity s + delta))"
  by (simp add: changeRainIntensity_def Let_def)

lemma changeRainIntensity_raindrops:
  "raindrops (changeRainIntensity rnd s delta) =
     (let newIntensity = max 50 (min 500 (rainIntensity s + delta))
      in if newIntensity > rainIntensity s
         then raindrops s @
              newRaindrops rnd (sc_cursor s) (sc_canvas_width s) (sc_canvas_height s)
                (nat (newIntensity - rainIntensity s))
         else if newIntensity < rainIntensity s then take (nat newIntensity) (raindrops s)
         else raindrops s)"
  by (simp add: changeRainIntensity_def Let_def)

lemma changeRainIntensity_increase:
  assumes "rainIntensity s \<le> 500" "50 \<le> rainIntensity s"
  shows "rainIntensity (changeRainIntensity rnd s 50) = min 500 (rainIntensity s + 50)"
    and "raindrops (changeRainIntensity rnd s 50) =
     raindrops s @ newRaindrops rnd (sc_cursor s) (sc_canvas_width s) (sc_canvas_height s)
                     (nat (min 500 (rainIntensity s + 50) - rainIntensity s))"
proof -
  have m: "max 50 (min 500 (rainIntensity s + 50)) = min 500 (rainIntensity s + 50)"
    using assms(2) by simp
  show "rainIntensity (changeRainIntensity rnd s 50) = min 500 (rainIntensity s + 50)"
    unfolding changeRainIntensity_intensity m ..
  have "min 500 (rainIntensity s + 50) > rainIntensity s \<or>
        min 500 (rainIntensity s + 50) = rainIntensity s"
    using assms(1) by linarith
  then show "raindrops (changeRainIntensity rnd s 50) =
     raindrops s @ newRaindrops rnd (sc_cursor s) (sc_canvas_width s) (sc_canvas_height s)
                     (nat (min 500 (rainIntensity s + 50) - rainIntensity s))"
    unfolding changeRainIntensity_raindrops m Let_def by (elim disjE) simp_all
qed

lemma changeRainIntensity_decrease:
  assumes "rainIntensity s \<le> 500" "50 \<le> rainIntensity s"
    "int (length (raindrops s)) = rainIntensity s"
  shows "rainIntensity (changeRainIntensity rnd s (- 50)) = max 50 (rainIntensity s - 50)"
    and "raindrops (changeRainIntensity rnd s (- 50)) =
     take (nat (max 50 (rainIntensity s - 50))) (raindrops s)"
proof -
  have m: "max 50 (min 500 (rainIntensity s + - 50)) = max 50 (rainIntensity s - 50)"
    using assms(1) by simp
  show "rainIntensity (changeRainIntensity rnd s (- 50)) = max 50 (rainIntensity s - 50)"
    unfolding changeRainIntensity_intensity m ..
  have "max 50 (rainIntensity s - 50) < rainIntensity s \<or>
        max 50 (rainIntensity s - 50) = rainIntensity s"
    using assms(2) by linarith
  then show "raindrops (changeRainIntensity rnd s (- 50)) =
     take (nat (max 50 (rainIntensity s - 50))) (raindrops s)"
    unfolding changeRainIntensity_raindrops m Let_def
  proof (elim disjE)
    assume "max 50 (rainIntensity s - 50) = rainIntensity s"
    moreover have "take (nat (rainIntensity s)) (raindrops s) = raindrops s"
      using assms(3) by simp
    ultimately show "(if rainIntensity s < max 50 (rainIntensity s - 50)
       then raindrops s @ newRaindrops rnd (sc_cursor s) (sc_canvas_width s) (sc_canvas_height s)
              (nat (max 50 (rainIntensity s - 50) - rainIntensity s))
       else if max 50 (rainIntensity s - 50) < rainIntensity s
            then take (nat (max 50 (rainIntensity s - 50))) (raindrops s)
            else raindrops s) = take (nat (max 50 (rainIntensity s - 50))) (raindrops s)"
      by simp
  qed simp
qed

lemma multiple_of_50:
  fixes i :: int
  assumes "i mod 50 = 0" "50 \<le> i" "i \<le> 500"
  shows "min 500 (i + 50) mod 50 = 0" "max 50 (i - 50) mod 50 = 0"
    "50 \<le> min 500 (i + 50)" "min 500 (i + 50) \<le> 500"
    "50 \<le> max 50 (i - 50)" "max 50 (i - 50) \<le> 500"
proof -
  have d: "50 dvd i" using assms(1) by (simp add: mod_eq_0_iff_dvd)
  have "50 dvd i + 50" "50 dvd i - 50" using d by simp_all
  then show "min 500 (i + 50) mod 50 = 0" "max 50 (i - 50) mod 50 = 0"
    by (simp_all add: min_def max_def mod_eq_0_iff_dvd)
  show "50 \<le> min 500 (i + 50)" "min 500 (i + 50) \<le> 500"
    "50 \<le> max 50 (i - 50)" "max 50 (i - 50) \<le> 500"
    using assms(2,3) by simp_all
qed

lemma level_of_intensity:
  fixes i :: int
  assumes "i mod 50 = 0" "50 \<le> i" "i \<le> 500"
  shows "\<exists>level. 1 \<le> level \<and> level \<le> 10 \<and> i = 50 * level"
proof -
  from assms(1) obtain k where k: "i = 50 * k" by (auto simp: mod_eq_0_iff_dvd)
  with assms(2,3) have "1 \<le> k \<and> k \<le> 10" by simp
  with k show ?thesis by blast
qed

lemma scene_inv_increase:
  assumes "scene_inv s"
  shows "scene_inv (changeRainIntensity rnd s 50)"
proof -
  have a: "int (length (raindrops s)) = rainIntensity s" "50 \<le> rainIntensity s"
    "rainIntensity s \<le> 500" "rainIntensity s mod 50 = 0"
    using assms by (simp_all add: scene_inv_def)
  note m = multiple_of_50[OF a(4,2,3)]
  have "int (length (raindrops s)) + int (nat (min 500 (rainIntensity s + 50) - rainIntensity s))
          = min 500 (rainIntensity s + 50)"
    using a(1,3) by linarith
  then show ?thesis
    unfolding scene_inv_def changeRainIntensity_increase[OF a(3,2)]
    using m by (simp add: length_newRaindrops)
qed

lemma scene_inv_decrease:
  assumes "scene_inv s"
  shows "scene_inv (changeRainIntensity rnd s (- 50))"
proof -
  have a: "int (length (raindrops s)) = rainIntensity s" "50 \<le> rainIntensity s"
    "rainIntensity s \<le> 500" "rainIntensity s mod 50 = 0"
    using assms by (simp_all add: scene_inv_def)
  note m = multiple_of_50[OF a(4,2,3)]
  have "int (min (length (raindrops s)) (nat (max 50 (rainIntensity s - 50))))
          = max 50 (rainIntensity s - 50)"
    using a(1,2) by linarith
  then show ?thesis
    unfolding scene_inv_def changeRainIntensity_decrease[OF a(3,2,1)]
    using m by simp
qed

lemma reachable_scene_inv:
  assumes "reachable_scene rnd s"
  shows "scene_inv s"
  using assms
proof (induction rule: reachable_scene.induct)
  case (scene_new k innerWidth innerHeight s)
  then show ?case by (simp add: scene_inv_def RainScene_new_fields)
next
  case (scene_increase s)
  then show ?case by (simp add: scene_inv_increase)
next
  case (scene_decrease s)
  then show ?case by (simp add: scene_inv_decrease)
next
  case (scene_toggleRain s)
  then show ?case by (simp add: scene_inv_def)
next
  case (scene_toggleLightning s)
  then show ?case by (simp add: scene_inv_def)
next
  case (scene_resize s innerWidth innerHeight)
  then show ?case by (auto simp: scene_inv_def resizeCanvas_fields)
next
  case (scene_update s currentTime now)
  then show ?case by (simp add: scene_inv_def RainScene_update_fields)
qed

text \<open>
  C9: in every reachable scene the number of raindrops equals the stored intensity,
  which is \<open>50 * level\<close> for an integer level from 1 to 10.  The increase button sets the
  intensity to \<open>min 500 (intensity + 50)\<close> and appends the missing raindrops, newly
  constructed, at the end; the decrease button sets it to \<open>max 50 (intensity - 50)\<close> and
  keeps that many raindrops from the front.
\<close>

theorem raindrop_population:
  assumes "reachable_scene rnd s"
  shows "int (length (raindrops s)) = rainIntensity s
    \<and> (\<exists>level. 1 \<le> level \<and> level \<le> 10 \<and> rainIntensity s = 50 * level)
    \<and> rainIntensity (changeRainIntensity rnd s 50) = min 500 (rainIntensity s + 50)
    \<and> raindrops (changeRainIntensity rnd s 50) =
        raindrops s @ newRaindrops rnd (sc_cursor s) (sc_canvas_width s) (sc_canvas_height s)
                        (nat (min 500 (rainIntensity s + 50) - rainIntensity s))
    \<and> rainIntensity (changeRainIntensity rnd s (- 50)) = max 50 (rainIntensity s - 50)
    \<and> raindrops (changeRainIntensity rnd s (- 50)) =
        take (nat (max 50 (rainIntensity s - 50))) (raindrops s)"
proof -
  have a: "int (length (raindrops s)) = rainIntensity s" "50 \<le> rainIntensity s"
    "rainIntensity s \<le> 500" "rainIntensity s mod 50 = 0"
    using reachable_scene_inv[OF assms] by (simp_all add: scene_inv_def)
  note l = level_of_intensity[OF a(4,2,3)]
  show ?thesis
    using a(1) l changeRainIntensity_increase[OF a(3,2)]
      changeRainIntensity_decrease[OF a(3,2,1)] by simp
qed

lemma example_scene_eval:
  "RainScene_new (const_draws (1/2)) 0 True 800 600 = Inr example_scene"
  "rainIntensity example_scene = 200"
proof -
  show e: "RainScene_new (const_draws (1/2)) 0 True 800 600 = Inr example_scene"
    by (simp add: example_scene_def RainScene_new_def Let_def)
  show "rainIntensity example_scene = 200" by (rule RainScene_new_fields(1)[OF e])
qed

theorem raindrop_population_witness:
  "reachable_scene (const_draws (1/2)) example_scene
   \<and> length (raindrops example_scene) = 200
   \<and> rainIntensity example_scene = 50 * 4
   \<and> rainIntensity (changeRainIntensity (const_draws (1/2)) example_scene 50) = 250
   \<and> length (raindrops (changeRainIntensity (const_draws (1/2)) example_scene 50)) = 250
   \<and> rainIntensity (changeRainIntensity (const_draws (1/2)) example_scene (- 50)) = 150
   \<and> raindrops (changeRainIntensity (const_draws (1/2)) example_scene (- 50))
       = take 150 (raindrops example_scene)"
proof -
  have r: "reachable_scene (const_draws (1/2)) example_scene"
    using example_scene_eval(1) by (rule scene_new)
  note t = raindrop_population[OF r]
  have l: "length (raindrops example_scene) = 200"
    using t example_scene_eval(2) by simp
  have i: "rainIntensity (changeRainIntensity (const_draws (1/2)) example_scene 50) = 250"
    "length (raindrops (changeRainIntensity (const_draws (1/2)) example_scene 50)) = 250"
    using t l by (simp_all add: example_scene_eval(2) length_newRaindrops)
  have d: "rainIntensity (changeRainIntensity (const_draws (1/2)) example_scene (- 50)) = 150"
    "raindrops (changeRainIntensity (const_draws (1/2)) example_scene (- 50))
       = take 150 (raindrops example_scene)"
    using t by (simp_all add: example_scene_eval(2))
  show ?thesis using r l i d example_scene_eval(2) by simp
qed

end
